theory Spec2Isabelle
  imports
    Main
    "HOL-Library.AList"
    "HOL-Library.Product_Lexorder"
    "HOL-Library.List_Lexorder"
    "HOL-Library.Char_ord"
begin

section \<open>The client metrics store (ClientMetricsStoreV2)\<close>

text \<open>
  The store keeps three relational tables: \<open>client_metrics_env\<close> (one row per
  feature, application, environment and hour), \<open>client_metrics_env_variants\<close>
  (the same key extended by a variant name) and \<open>client_metrics_total\<close> (one row
  per feature and environment).

  Conventions of the embedding:
  \<^item> a JavaScript \<open>Date\<close> and a database \<open>timestamp\<close> are an \<open>int\<close>, the
    number of milliseconds since the epoch (\<open>Date.getTime()\<close>);
  \<^item> a JavaScript \<open>number\<close> holding a counter is an \<open>int\<close>; the counters are
    assumed to stay in the range where JavaScript adds integers exactly;
  \<^item> a JavaScript object used as a dictionary is an association list in insertion
    order, which is the order \<open>Object.keys\<close>, \<open>Object.values\<close> and
    \<open>Object.entries\<close> enumerate keys that are not array indices; properties
    inherited from \<open>Object.prototype\<close> are not modelled;
  \<^item> a table is the list of its rows; the primary key constraint is a property of that
    list (\<open>distinct\<close> keys), kept by the statements that write it;
  \<^item> \<open>String.prototype.localeCompare\<close> compares two strings by their collation
    keys; the collation is a parameter \<open>coll\<close> into any linear order, and
    \<open>Array.prototype.sort\<close> is the stable sort by that key.
\<close>

subsection \<open>Data\<close>

text \<open>Modelled from the spec: the interfaces \<open>IClientMetricsEnvKey\<close>,
  \<open>IClientMetricsEnv\<close> and \<open>IClientMetricsEnvVariant\<close> are declared in
  \<open>types/stores/client-metrics-store-v2\<close>, which is not among the sources. Their fields
  are those the store reads (\<open>toRow\<close>, \<open>toVariantRow\<close>, \<open>get\<close>) and the
  MetricEvent of section 3 lists; the optional \<open>variants\<close> mapping is \<open>None\<close> when
  absent.\<close>

record IClientMetricsEnvKey =
  featureName :: string
  appName :: string
  environment :: string
  timestamp :: int

record IClientMetricsEnv = IClientMetricsEnvKey +
  yes :: int
  no :: int
  variants :: "(string \<times> int) list option"

record IClientMetricsEnvVariant = IClientMetricsEnvKey +
  variant :: string
  count :: int

record ClientMetricsBaseTable =
  feature_name :: string
  app_name :: string
  row_environment :: string
  row_timestamp :: int

record ClientMetricsEnvTable = ClientMetricsBaseTable +
  row_yes :: int
  row_no :: int

record ClientMetricsEnvVariantTable = ClientMetricsBaseTable +
  row_variant :: string
  row_count :: int

record ClientMetricsTotalTable =
  total_feature_name :: string
  total_environment :: string
  total :: int

text \<open>A row of the left join of \<open>client_metrics_env\<close> with its variants:
  \<open>variant\<close> and \<open>count\<close> are NULL (\<open>None\<close>) where no variant row matches.\<close>

record JoinedRow = ClientMetricsEnvTable +
  joined_variant :: "string option"
  joined_count :: "int option"

datatype error = NotFoundError | CardinalityViolation | SyntaxError | TypeError

subsection \<open>Hours\<close>

text \<open>\<open>startOfHour\<close> of date-fns clears minutes, seconds and milliseconds of the
  local time; the server is taken to run in a time zone a whole number of hours from
  UTC, where that is rounding down to a multiple of 3600000 ms.\<close>

definition msPerHour :: int where
  "msPerHour = 3600000"

definition startOfHour :: "int \<Rightarrow> int" where
  "startOfHour t = t - t mod msPerHour"

subsection \<open>Rows\<close>

definition fromRow :: "ClientMetricsEnvTable \<Rightarrow> IClientMetricsEnv" where
  "fromRow row = \<lparr>featureName = feature_name row, appName = app_name row,
     environment = row_environment row, timestamp = row_timestamp row,
     yes = row_yes row, no = row_no row, variants = None\<rparr>"

definition toRow :: "IClientMetricsEnv \<Rightarrow> ClientMetricsEnvTable" where
  "toRow metric = \<lparr>feature_name = featureName metric, app_name = appName metric,
     row_environment = environment metric, row_timestamp = startOfHour (timestamp metric),
     row_yes = yes metric, row_no = no metric\<rparr>"

definition toVariantRow :: "IClientMetricsEnvVariant \<Rightarrow> ClientMetricsEnvVariantTable" where
  "toVariantRow metric = \<lparr>feature_name = featureName metric, app_name = appName metric,
     row_environment = environment metric, row_timestamp = startOfHour (timestamp metric),
     row_variant = variant metric, row_count = count metric\<rparr>"

text \<open>The primary keys of the three tables.\<close>

definition env_pk :: "'a ClientMetricsBaseTable_scheme \<Rightarrow> string \<times> string \<times> string \<times> int" where
  "env_pk r = (feature_name r, app_name r, row_environment r, row_timestamp r)"

definition variant_pk :: "ClientMetricsEnvVariantTable \<Rightarrow> (string \<times> string \<times> string \<times> int) \<times> string" where
  "variant_pk r = (env_pk r, row_variant r)"

definition total_pk :: "ClientMetricsTotalTable \<Rightarrow> string \<times> string" where
  "total_pk r = (total_feature_name r, total_environment r)"

subsection \<open>Insert or accumulate\<close>

text \<open>One row meeting a keyed list: where a row with the same key is present, that row
  is replaced by its combination with the new one; otherwise the new row is appended.\<close>

definition accumulate_row :: "('r \<Rightarrow> 'k) \<Rightarrow> ('r \<Rightarrow> 'r \<Rightarrow> 'r) \<Rightarrow> 'r list \<Rightarrow> 'r \<Rightarrow> 'r list" where
  "accumulate_row pk add tbl r =
     (if pk r \<in> set (map pk tbl)
      then map (\<lambda>x. if pk x = pk r then add x r else x) tbl
      else tbl @ [r])"

text \<open>PostgreSQL's \<open>INSERT ... VALUES rows ON CONFLICT (pk) DO UPDATE SET c = t.c + EXCLUDED.c\<close>.
  The statement is atomic. It is refused when two proposed rows have the same key
  ("ON CONFLICT DO UPDATE command cannot affect row a second time"). For an empty list of
  rows the query builder produces no \<open>INSERT\<close> text at all, and the remaining
  \<open>ON CONFLICT\<close> clause alone is not a statement.\<close>

definition insert_on_conflict ::
  "('r \<Rightarrow> 'k) \<Rightarrow> ('r \<Rightarrow> 'r \<Rightarrow> 'r) \<Rightarrow> 'r list \<Rightarrow> 'r list \<Rightarrow> error + 'r list" where
  "insert_on_conflict pk add rows tbl =
     (if rows = [] then Inl SyntaxError
      else if \<not> distinct (map pk rows) then Inl CardinalityViolation
      else Inr (foldl (accumulate_row pk add) tbl rows))"

definition add_env :: "ClientMetricsEnvTable \<Rightarrow> ClientMetricsEnvTable \<Rightarrow> ClientMetricsEnvTable" where
  "add_env old excluded =
     old\<lparr>row_yes := row_yes old + row_yes excluded, row_no := row_no old + row_no excluded\<rparr>"

definition add_variant ::
  "ClientMetricsEnvVariantTable \<Rightarrow> ClientMetricsEnvVariantTable \<Rightarrow> ClientMetricsEnvVariantTable" where
  "add_variant old excluded = old\<lparr>row_count := row_count old + row_count excluded\<rparr>"

definition add_total :: "ClientMetricsTotalTable \<Rightarrow> ClientMetricsTotalTable \<Rightarrow> ClientMetricsTotalTable" where
  "add_total old excluded = old\<lparr>total := total old + total excluded\<rparr>"

subsection \<open>The store and its statements\<close>

datatype statement =
    InsertEnv "ClientMetricsEnvTable list"
  | InsertVariants "ClientMetricsEnvVariantTable list"
  | InsertTotal "ClientMetricsTotalTable list"
  | DeleteEnvWhereKey "string \<times> string \<times> string \<times> int"
  | DeleteEnvAll
  | DeleteEnvWhereTimestampLe int

record store =
  client_metrics_env :: "ClientMetricsEnvTable list"
  client_metrics_env_variants :: "ClientMetricsEnvVariantTable list"
  client_metrics_total :: "ClientMetricsTotalTable list"
  issued :: "statement list"

fun execute :: "statement \<Rightarrow> store \<Rightarrow> error + store" where
  "execute (InsertEnv rows) s =
     (case insert_on_conflict env_pk add_env rows (client_metrics_env s) of
        Inl e \<Rightarrow> Inl e
      | Inr t \<Rightarrow> Inr (s\<lparr>client_metrics_env := t\<rparr>))"
| "execute (InsertVariants rows) s =
     (case insert_on_conflict variant_pk add_variant rows (client_metrics_env_variants s) of
        Inl e \<Rightarrow> Inl e
      | Inr t \<Rightarrow> Inr (s\<lparr>client_metrics_env_variants := t\<rparr>))"
| "execute (InsertTotal rows) s =
     (case insert_on_conflict total_pk add_total rows (client_metrics_total s) of
        Inl e \<Rightarrow> Inl e
      | Inr t \<Rightarrow> Inr (s\<lparr>client_metrics_total := t\<rparr>))"
| "execute (DeleteEnvWhereKey k) s =
     Inr (s\<lparr>client_metrics_env := filter (\<lambda>r. env_pk r \<noteq> k) (client_metrics_env s)\<rparr>)"
| "execute DeleteEnvAll s = Inr (s\<lparr>client_metrics_env := []\<rparr>)"
| "execute (DeleteEnvWhereTimestampLe c) s =
     Inr (s\<lparr>client_metrics_env := filter (\<lambda>r. \<not> row_timestamp r \<le> c) (client_metrics_env s)\<rparr>)"

text \<open>\<open>await this.db.raw(query)\<close>: the statement is issued; a refused statement
  changes no table and its error reaches the caller.\<close>

definition raw :: "statement \<Rightarrow> store \<Rightarrow> error option \<times> store" where
  "raw q s =
     (let s' = s\<lparr>issued := issued s @ [q]\<rparr>
      in case execute q s' of Inl e \<Rightarrow> (Some e, s') | Inr s'' \<Rightarrow> (None, s''))"

subsection \<open>Compaction and variant spreading\<close>

text \<open>The key of an event or of a lookup: its names and the start of its hour.\<close>

definition metric_key :: "'a IClientMetricsEnvKey_scheme \<Rightarrow> string \<times> string \<times> string \<times> int" where
  "metric_key m = (featureName m, appName m, environment m, startOfHour (timestamp m))"

text \<open>Modelled from the spec: merging a further event into its group (section 4.1), yes
  and no are summed.\<close>

definition add_metric :: "IClientMetricsEnv \<Rightarrow> IClientMetricsEnv \<Rightarrow> IClientMetricsEnv" where
  "add_metric old m = old\<lparr>yes := yes old + yes m, no := no old + no m\<rparr>"

text \<open>Modelled from the spec: \<open>collapseHourlyMetrics\<close> of \<open>util/collapseHourlyMetrics\<close>
  is imported by the store and is not among the sources. Section 4.1: every (featureName,
  appName, environment, hourTimestamp) tuple appears at most once in the output, with yes
  and no summed over all events sharing the tuple after each timestamp is floored to its
  hour; the input is not changed. The spec fixes no output order; the groups are kept in
  the order of their first event.\<close>

definition collapseHourlyMetrics :: "IClientMetricsEnv list \<Rightarrow> IClientMetricsEnv list" where
  "collapseHourlyMetrics metrics =
     foldl (accumulate_row metric_key add_metric) []
       (map (\<lambda>m. m\<lparr>timestamp := startOfHour (timestamp m)\<rparr>) metrics)"

text \<open>Modelled from the spec: the variant rows of one event (section 4.2), one per entry of
  its variants mapping and none when the mapping is empty or absent.\<close>

definition variantEntries :: "IClientMetricsEnv \<Rightarrow> IClientMetricsEnvVariant list" where
  "variantEntries m =
     (case variants m of
        None \<Rightarrow> []
      | Some vs \<Rightarrow>
          map (\<lambda>(v, c). \<lparr>featureName = featureName m, appName = appName m,
                 environment = environment m, timestamp = startOfHour (timestamp m),
                 variant = v, count = c\<rparr>) vs)"

definition variant_key :: "IClientMetricsEnvVariant \<Rightarrow> (string \<times> string \<times> string \<times> int) \<times> string" where
  "variant_key v = (metric_key v, variant v)"

text \<open>Modelled from the spec: merging a further occurrence of a variant into its row
  (section 4.2), the counts are summed.\<close>

definition add_count :: "IClientMetricsEnvVariant \<Rightarrow> IClientMetricsEnvVariant \<Rightarrow> IClientMetricsEnvVariant" where
  "add_count old v = old\<lparr>count := count old + count v\<rparr>"

text \<open>Modelled from the spec: \<open>spreadVariants\<close> of \<open>util/collapseHourlyMetrics\<close> is
  imported by the store and is not among the sources. Section 4.2: one output row per
  (featureName, appName, environment, hourTimestamp, variantName), its count the sum of
  that variant's occurrences over all raw input events sharing the tuple; events with an
  empty or absent variants mapping contribute no rows.\<close>

definition spreadVariants :: "IClientMetricsEnv list \<Rightarrow> IClientMetricsEnvVariant list" where
  "spreadVariants metrics =
     foldl (accumulate_row variant_key add_count) [] (concat (map variantEntries metrics))"

subsection \<open>Sorting before submission\<close>

text \<open>The comparators chain \<open>localeCompare\<close> results with \<open>||\<close>: the next field decides
  only where the previous ones tie, which is the lexicographic order of the collation keys.\<close>

definition sortRows :: "(string \<Rightarrow> 'c::linorder) \<Rightarrow> ClientMetricsEnvTable list \<Rightarrow> ClientMetricsEnvTable list" where
  "sortRows coll rows =
     sort_key (\<lambda>a. (coll (feature_name a), coll (app_name a), coll (row_environment a))) rows"

definition sortVariantRows ::
  "(string \<Rightarrow> 'c::linorder) \<Rightarrow> ClientMetricsEnvVariantTable list \<Rightarrow> ClientMetricsEnvVariantTable list" where
  "sortVariantRows coll variantRows =
     sort_key (\<lambda>a. (coll (feature_name a), coll (app_name a), coll (row_environment a),
                    coll (row_variant a))) variantRows"

definition sortTotalRows :: "(string \<Rightarrow> 'c::linorder) \<Rightarrow> ClientMetricsTotalTable list \<Rightarrow> ClientMetricsTotalTable list" where
  "sortTotalRows coll rows =
     sort_key (\<lambda>a. (coll (total_feature_name a), coll (total_environment a))) rows"

subsection \<open>batchInsertMetrics\<close>

definition sortedRows :: "(string \<Rightarrow> 'c::linorder) \<Rightarrow> IClientMetricsEnv list \<Rightarrow> ClientMetricsEnvTable list" where
  "sortedRows coll metrics = sortRows coll (map toRow (collapseHourlyMetrics metrics))"

definition sortedVariantRows ::
  "(string \<Rightarrow> 'c::linorder) \<Rightarrow> IClientMetricsEnv list \<Rightarrow> ClientMetricsEnvVariantTable list" where
  "sortedVariantRows coll metrics = sortVariantRows coll (map toVariantRow (spreadVariants metrics))"

text \<open>The argument is \<open>None\<close> for \<open>null\<close> or \<open>undefined\<close>. The two statements are
  issued one after the other, each on its own: when the second is refused the first has
  already taken effect.\<close>

definition batchInsertMetrics ::
  "(string \<Rightarrow> 'c::linorder) \<Rightarrow> IClientMetricsEnv list option \<Rightarrow> store \<Rightarrow> error option \<times> store" where
  "batchInsertMetrics coll metrics s =
     (case metrics of
        None \<Rightarrow> (None, s)
      | Some ms \<Rightarrow>
          if length ms = 0 then (None, s)
          else
            (case raw (InsertEnv (sortedRows coll ms)) s of
               (Some e, s1) \<Rightarrow> (Some e, s1)
             | (None, s1) \<Rightarrow>
                 if length (sortedVariantRows coll ms) > 0
                 then raw (InsertVariants (sortedVariantRows coll ms)) s1
                 else (None, s1)))"

subsection \<open>batchInsertTotalMetrics\<close>

text \<open>\<open>key.split('_')\<close>: the pieces of the key between the underscores.\<close>

fun split_underscore :: "string \<Rightarrow> string list" where
  "split_underscore [] = [[]]"
| "split_underscore (c # cs) =
     (if c = CHR ''_'' then [] # split_underscore cs
      else (case split_underscore cs of
              [] \<Rightarrow> [[c]]
            | p # ps \<Rightarrow> (c # p) # ps))"

text \<open>One turn of the loop over the metrics: the entry of the key
  \<open>featureName_environment\<close> is created at 0 when it is missing, then grows by
  \<open>yes + no\<close>.\<close>

definition aggregate_metric :: "(string \<times> int) list \<Rightarrow> IClientMetricsEnv \<Rightarrow> (string \<times> int) list" where
  "aggregate_metric aggregatedMetrics metric =
     (let key = featureName metric @ ''_'' @ environment metric
      in case map_of aggregatedMetrics key of
           None \<Rightarrow> AList.update key (0 + (yes metric + no metric)) aggregatedMetrics
         | Some t \<Rightarrow> AList.update key (t + (yes metric + no metric)) aggregatedMetrics)"

text \<open>The row of one key: the first two pieces of the split key and the key's sum. A key
  without an underscore would leave \<open>environment\<close> undefined; the keys of the loop all
  contain one.\<close>

definition totalRow :: "(string \<times> int) list \<Rightarrow> string \<Rightarrow> ClientMetricsTotalTable option" where
  "totalRow aggregatedMetrics key =
     (case (split_underscore key, map_of aggregatedMetrics key) of
        (feature # env # _, Some t) \<Rightarrow>
          Some \<lparr>total_feature_name = feature, total_environment = env, total = t\<rparr>
      | _ \<Rightarrow> None)"

definition totalRows :: "IClientMetricsEnv list \<Rightarrow> ClientMetricsTotalTable list option" where
  "totalRows metrics =
     (let aggregatedMetrics = foldl aggregate_metric [] metrics
      in those (map (totalRow aggregatedMetrics) (map fst aggregatedMetrics)))"

definition batchInsertTotalMetrics ::
  "(string \<Rightarrow> 'c::linorder) \<Rightarrow> IClientMetricsEnv list option \<Rightarrow> store \<Rightarrow> error option \<times> store" where
  "batchInsertTotalMetrics coll metrics s =
     (case metrics of
        None \<Rightarrow> (None, s)
      | Some ms \<Rightarrow>
          if length ms = 0 then (None, s)
          else
            (case totalRows ms of
               None \<Rightarrow> (Some TypeError, s)
             | Some rows \<Rightarrow> raw (InsertTotal (sortTotalRows coll rows)) s))"

subsection \<open>Point lookup, deletion, retention\<close>

definition get :: "store \<Rightarrow> 'a IClientMetricsEnvKey_scheme \<Rightarrow> error + IClientMetricsEnv" where
  "get s key =
     (case filter (\<lambda>row. feature_name row = featureName key \<and> app_name row = appName key \<and>
                         row_environment row = environment key \<and>
                         row_timestamp row = startOfHour (timestamp key))
             (client_metrics_env s) of
        row # _ \<Rightarrow> Inr (fromRow row)
      | [] \<Rightarrow> Inl NotFoundError)"

definition exists :: "store \<Rightarrow> 'a IClientMetricsEnvKey_scheme \<Rightarrow> bool" where
  "exists s key = (case get s key of Inr _ \<Rightarrow> True | Inl e \<Rightarrow> False)"

definition delete :: "'a IClientMetricsEnvKey_scheme \<Rightarrow> store \<Rightarrow> error option \<times> store" where
  "delete key s =
     raw (DeleteEnvWhereKey (featureName key, appName key, environment key,
            startOfHour (timestamp key))) s"

definition deleteAll :: "store \<Rightarrow> error option \<times> store" where
  "deleteAll s = raw DeleteEnvAll s"

text \<open>\<open>now\<close> is the database's \<open>NOW()\<close> when the statement runs; an interval of
  \<open>h\<close> hours is \<open>h * msPerHour\<close>.\<close>

definition clearMetrics :: "int \<Rightarrow> int \<Rightarrow> store \<Rightarrow> error option \<times> store" where
  "clearMetrics now hoursAgo s = raw (DeleteEnvWhereTimestampLe (now - hoursAgo * msPerHour)) s"

subsection \<open>Windowed reads\<close>

definition leftJoinVariants :: "ClientMetricsEnvVariantTable list \<Rightarrow> ClientMetricsEnvTable \<Rightarrow> JoinedRow list" where
  "leftJoinVariants vtbl r =
     (case filter (\<lambda>v. feature_name v = feature_name r \<and> app_name v = app_name r \<and>
                        row_environment v = row_environment r \<and>
                        row_timestamp v = row_timestamp r) vtbl of
        [] \<Rightarrow> [\<lparr>feature_name = feature_name r, app_name = app_name r,
                 row_environment = row_environment r, row_timestamp = row_timestamp r,
                 row_yes = row_yes r, row_no = row_no r,
                 joined_variant = None, joined_count = None\<rparr>]
      | vs \<Rightarrow> map (\<lambda>v. \<lparr>feature_name = feature_name r, app_name = app_name r,
                 row_environment = row_environment r, row_timestamp = row_timestamp r,
                 row_yes = row_yes r, row_no = row_no r,
                 joined_variant = Some (row_variant v), joined_count = Some (row_count v)\<rparr>) vs)"

text \<open>The query of \<open>getMetricsForFeatureToggle\<close>: the left join, restricted to the
  feature and to the rows with \<open>timestamp >= NOW() - INTERVAL 'hoursBack hours'\<close>.\<close>

definition featureToggleRows :: "int \<Rightarrow> store \<Rightarrow> string \<Rightarrow> int \<Rightarrow> JoinedRow list" where
  "featureToggleRows now s feature hoursBack =
     filter (\<lambda>j. feature_name j = feature \<and> row_timestamp j \<ge> now - hoursBack * msPerHour)
       (concat (map (leftJoinVariants (client_metrics_env_variants s)) (client_metrics_env s)))"

text \<open>The reducer keys its accumulator by a string joined with underscores, the template
  literal \<open>reducer_key\<close>. The texts of a \<open>Date\<close> and of a counter inside the
  template literal are the parameters \<open>dateToString\<close> and \<open>numToString\<close>. An empty
  variant name is falsy and is skipped like NULL. A variant name never comes with a NULL
  count out of the join.\<close>

definition reducer_key ::
  "(int \<Rightarrow> string) \<Rightarrow> (int \<Rightarrow> string) \<Rightarrow> 'a ClientMetricsEnvTable_scheme \<Rightarrow> string" where
  "reducer_key dateToString numToString tokenRow =
     feature_name tokenRow @ ''_'' @ app_name tokenRow @ ''_'' @
     row_environment tokenRow @ ''_'' @ dateToString (row_timestamp tokenRow) @ ''_'' @
     numToString (row_yes tokenRow) @ ''_'' @ numToString (row_no tokenRow)"

definition variantRowReducer ::
  "(int \<Rightarrow> string) \<Rightarrow> (int \<Rightarrow> string) \<Rightarrow> (string \<times> IClientMetricsEnv) list \<Rightarrow> JoinedRow
     \<Rightarrow> (string \<times> IClientMetricsEnv) list" where
  "variantRowReducer dateToString numToString acc tokenRow =
     (let key = reducer_key dateToString numToString tokenRow;
          acc1 = (if map_of acc key = None
                  then AList.update key
                         \<lparr>featureName = feature_name tokenRow, appName = app_name tokenRow,
                          environment = row_environment tokenRow,
                          timestamp = row_timestamp tokenRow,
                          yes = row_yes tokenRow, no = row_no tokenRow, variants = Some []\<rparr> acc
                  else acc)
      in case (joined_variant tokenRow, joined_count tokenRow) of
           (Some v, Some c) \<Rightarrow>
             if v = [] then acc1
             else AList.map_entry key
                    (\<lambda>obj. obj\<lparr>variants := map_option (AList.update v c) (variants obj)\<rparr>) acc1
         | _ \<Rightarrow> acc1)"

definition getMetricsForFeatureToggle ::
  "(int \<Rightarrow> string) \<Rightarrow> (int \<Rightarrow> string) \<Rightarrow> int \<Rightarrow> store \<Rightarrow> string \<Rightarrow> int \<Rightarrow> IClientMetricsEnv list" where
  "getMetricsForFeatureToggle dateToString numToString now s feature hoursBack =
     map snd (foldl (variantRowReducer dateToString numToString) []
                (featureToggleRows now s feature hoursBack))"

text \<open>\<open>SELECT DISTINCT app_name ... ORDER BY app_name\<close>; \<open>dbcoll\<close> is the key of the
  database's collation.\<close>

definition getSeenAppsForFeatureToggle ::
  "(string \<Rightarrow> 'c::linorder) \<Rightarrow> int \<Rightarrow> store \<Rightarrow> string \<Rightarrow> int \<Rightarrow> string list" where
  "getSeenAppsForFeatureToggle dbcoll now s feature hoursBack =
     sort_key dbcoll (remdups (map app_name
       (filter (\<lambda>r. feature_name r = feature \<and> row_timestamp r \<ge> now - hoursBack * msPerHour)
          (client_metrics_env s))))"

definition getSeenTogglesForApp ::
  "(string \<Rightarrow> 'c::linorder) \<Rightarrow> int \<Rightarrow> store \<Rightarrow> string \<Rightarrow> int \<Rightarrow> string list" where
  "getSeenTogglesForApp dbcoll now s app hoursBack =
     sort_key dbcoll (remdups (map feature_name
       (filter (\<lambda>r. app_name r = app \<and> row_timestamp r \<ge> now - hoursBack * msPerHour)
          (client_metrics_env s))))"

subsection \<open>Example data\<close>

text \<open>The store with empty tables and no statement issued; an event and a row of the
  hourly table written by their fields.\<close>

definition empty_store :: store where
  "empty_store = \<lparr>client_metrics_env = [], client_metrics_env_variants = [],
     client_metrics_total = [], issued = []\<rparr>"

definition event ::
  "string \<Rightarrow> string \<Rightarrow> string \<Rightarrow> int \<Rightarrow> int \<Rightarrow> int \<Rightarrow> (string \<times> int) list option \<Rightarrow> IClientMetricsEnv" where
  "event f a e t y n vs = \<lparr>featureName = f, appName = a, environment = e, timestamp = t,
     yes = y, no = n, variants = vs\<rparr>"

definition env_row :: "string \<Rightarrow> string \<Rightarrow> string \<Rightarrow> int \<Rightarrow> int \<Rightarrow> int \<Rightarrow> ClientMetricsEnvTable" where
  "env_row f a e t y n = \<lparr>feature_name = f, app_name = a, row_environment = e,
     row_timestamp = t, row_yes = y, row_no = n\<rparr>"

subsection \<open>Auxiliary notions for the properties\<close>

text \<open>The sum of a counter over the rows of one key.\<close>

definition sum_at :: "('r \<Rightarrow> 'k) \<Rightarrow> ('r \<Rightarrow> int) \<Rightarrow> 'k \<Rightarrow> 'r list \<Rightarrow> int" where
  "sum_at pk val k rows = sum_list (map val (filter (\<lambda>x. pk x = k) rows))"

text \<open>Three hours of one feature, application and environment: hour -1, hour 0 and
  hour 1.\<close>

definition retention_store :: store where
  "retention_store = empty_store\<lparr>client_metrics_env :=
     [env_row ''f'' ''a'' ''e'' (- 3600000) 1 0, env_row ''f'' ''a'' ''e'' 0 2 0,
      env_row ''f'' ''a'' ''e'' 3600000 3 0]\<rparr>"

text \<open>A lookup key at 00:30 of hour 0.\<close>

definition halfpast_key :: IClientMetricsEnvKey where
  "halfpast_key = \<lparr>featureName = ''f'', appName = ''a'', environment = ''e'', timestamp = 1800000\<rparr>"

text \<open>Rows of the total and of the variant table, written by their columns.\<close>

definition total_row :: "string \<Rightarrow> string \<Rightarrow> int \<Rightarrow> ClientMetricsTotalTable" where
  "total_row f e t = \<lparr>total_feature_name = f, total_environment = e, total = t\<rparr>"

definition variant_row ::
  "string \<Rightarrow> string \<Rightarrow> string \<Rightarrow> int \<Rightarrow> string \<Rightarrow> int \<Rightarrow> ClientMetricsEnvVariantTable" where
  "variant_row f a e t v c = \<lparr>feature_name = f, app_name = a, row_environment = e,
     row_timestamp = t, row_variant = v, row_count = c\<rparr>"

text \<open>The two events of the example scenario, reported at 00:10 and 00:50 of hour 0.\<close>

definition scenario :: "IClientMetricsEnv list" where
  "scenario = [event ''f1'' ''a1'' ''prod'' 600000 3 1 (Some [(''A'', 2)]),
               event ''f1'' ''a1'' ''prod'' 3000000 5 0 (Some [(''A'', 1), (''B'', 4)])]"

text \<open>The sort keys of the two comparators, and the full primary keys under the same
  collation.\<close>

definition env_sort_key :: "(string \<Rightarrow> 'c::linorder) \<Rightarrow> 'a ClientMetricsBaseTable_scheme \<Rightarrow> 'c \<times> 'c \<times> 'c" where
  "env_sort_key coll a = (coll (feature_name a), coll (app_name a), coll (row_environment a))"

definition variant_sort_key ::
  "(string \<Rightarrow> 'c::linorder) \<Rightarrow> ClientMetricsEnvVariantTable \<Rightarrow> 'c \<times> 'c \<times> 'c \<times> 'c" where
  "variant_sort_key coll a =
     (coll (feature_name a), coll (app_name a), coll (row_environment a), coll (row_variant a))"

definition env_full_key :: "(string \<Rightarrow> 'c::linorder) \<Rightarrow> 'a ClientMetricsBaseTable_scheme \<Rightarrow> 'c \<times> 'c \<times> 'c \<times> int" where
  "env_full_key coll a =
     (coll (feature_name a), coll (app_name a), coll (row_environment a), row_timestamp a)"

definition variant_full_key ::
  "(string \<Rightarrow> 'c::linorder) \<Rightarrow> ClientMetricsEnvVariantTable \<Rightarrow> 'c \<times> 'c \<times> 'c \<times> int \<times> 'c" where
  "variant_full_key coll a =
     (coll (feature_name a), coll (app_name a), coll (row_environment a), row_timestamp a,
      coll (row_variant a))"

text \<open>A collation for the examples: strings ordered by their characters.\<close>

definition byte_order :: "string \<Rightarrow> string" where
  "byte_order str = str"

text \<open>Two events of one feature, application and environment: the first in hour 1 with
  variant \<open>a\<close>, the second in hour 0 with variant \<open>b\<close>.\<close>

definition late_first :: "IClientMetricsEnv list" where
  "late_first = [event ''f'' ''app'' ''prod'' 3600000 1 0 (Some [(''a'', 1)]),
                 event ''f'' ''app'' ''prod'' 0 1 0 (Some [(''b'', 1)])]"

text \<open>The operations of the store that write, and a caller running a sequence of them;
  an operation that fails leaves the store as the failed statement left it, and the
  sequence goes on.\<close>

datatype operation =
    BatchInsertMetrics "IClientMetricsEnv list option"
  | BatchInsertTotalMetrics "IClientMetricsEnv list option"
  | Delete IClientMetricsEnvKey
  | DeleteAll
  | ClearMetrics int int

fun perform :: "(string \<Rightarrow> 'c::linorder) \<Rightarrow> operation \<Rightarrow> store \<Rightarrow> error option \<times> store" where
  "perform coll (BatchInsertMetrics metrics) s = batchInsertMetrics coll metrics s"
| "perform coll (BatchInsertTotalMetrics metrics) s = batchInsertTotalMetrics coll metrics s"
| "perform coll (Delete key) s = delete key s"
| "perform coll DeleteAll s = deleteAll s"
| "perform coll (ClearMetrics now hoursAgo) s = clearMetrics now hoursAgo s"

definition run :: "(string \<Rightarrow> 'c::linorder) \<Rightarrow> operation list \<Rightarrow> store \<Rightarrow> store" where
  "run coll ops s = foldl (\<lambda>s' op. snd (perform coll op s')) s ops"

text \<open>At most one row per primary key, in each table.\<close>

definition pk_invariant :: "store \<Rightarrow> bool" where
  "pk_invariant s \<longleftrightarrow>
     distinct (map env_pk (client_metrics_env s)) \<and>
     distinct (map variant_pk (client_metrics_env_variants s)) \<and>
     distinct (map total_pk (client_metrics_total s))"

text \<open>An event as the ingestion boundary delivers it: counts are not negative.\<close>

definition valid_event :: "IClientMetricsEnv \<Rightarrow> bool" where
  "valid_event m \<longleftrightarrow>
     0 \<le> yes m \<and> 0 \<le> no m \<and>
     (case variants m of None \<Rightarrow> True | Some vs \<Rightarrow> list_all (\<lambda>(v, c). 0 \<le> c) vs)"

fun batch_write :: "operation \<Rightarrow> bool" where
  "batch_write (BatchInsertMetrics metrics) =
     (case metrics of None \<Rightarrow> True | Some ms \<Rightarrow> list_all valid_event ms)"
| "batch_write (BatchInsertTotalMetrics metrics) =
     (case metrics of None \<Rightarrow> True | Some ms \<Rightarrow> list_all valid_event ms)"
| "batch_write (Delete key) = False"
| "batch_write DeleteAll = False"
| "batch_write (ClearMetrics now hoursAgo) = False"

text \<open>Every row of the first store is still there in the second, at the same primary key,
  with counters at least as large.\<close>

definition env_grows :: "ClientMetricsEnvTable \<Rightarrow> ClientMetricsEnvTable \<Rightarrow> bool" where
  "env_grows r r' \<longleftrightarrow> env_pk r' = env_pk r \<and> row_yes r \<le> row_yes r' \<and> row_no r \<le> row_no r'"

definition variant_grows :: "ClientMetricsEnvVariantTable \<Rightarrow> ClientMetricsEnvVariantTable \<Rightarrow> bool" where
  "variant_grows r r' \<longleftrightarrow> variant_pk r' = variant_pk r \<and> row_count r \<le> row_count r'"

definition total_grows :: "ClientMetricsTotalTable \<Rightarrow> ClientMetricsTotalTable \<Rightarrow> bool" where
  "total_grows r r' \<longleftrightarrow> total_pk r' = total_pk r \<and> total r \<le> total r'"

definition counters_grow :: "store \<Rightarrow> store \<Rightarrow> bool" where
  "counters_grow s s' \<longleftrightarrow>
     (\<forall>r \<in> set (client_metrics_env s). \<exists>r' \<in> set (client_metrics_env s'). env_grows r r') \<and>
     (\<forall>r \<in> set (client_metrics_env_variants s).
        \<exists>r' \<in> set (client_metrics_env_variants s'). variant_grows r r') \<and>
     (\<forall>r \<in> set (client_metrics_total s). \<exists>r' \<in> set (client_metrics_total s'). total_grows r r')"

text \<open>A store with one row in each table, and a sequence of batch writes on it.\<close>

definition busy_store :: store where
  "busy_store = empty_store\<lparr>
     client_metrics_env := [env_row ''f1'' ''a1'' ''prod'' 0 2 2],
     client_metrics_env_variants := [variant_row ''f1'' ''a1'' ''prod'' 0 ''A'' 1],
     client_metrics_total := [total_row ''f1'' ''prod'' 4]\<rparr>"

definition writes :: "operation list" where
  "writes = [BatchInsertMetrics (Some scenario), BatchInsertTotalMetrics (Some scenario)]"

text \<open>The fields an object of the result shares with the row it was created from.\<close>

definition row_fields ::
  "'a ClientMetricsEnvTable_scheme \<Rightarrow> string \<times> string \<times> string \<times> int \<times> int \<times> int" where
  "row_fields r =
     (feature_name r, app_name r, row_environment r, row_timestamp r, row_yes r, row_no r)"

definition object_fields :: "IClientMetricsEnv \<Rightarrow> string \<times> string \<times> string \<times> int \<times> int \<times> int" where
  "object_fields obj =
     (featureName obj, appName obj, environment obj, timestamp obj, yes obj, no obj)"

text \<open>The reducer's keys tell the rows of the hourly table apart.\<close>

definition keys_separate :: "(int \<Rightarrow> string) \<Rightarrow> (int \<Rightarrow> string) \<Rightarrow> store \<Rightarrow> bool" where
  "keys_separate dateToString numToString s \<longleftrightarrow>
     (\<forall>r1 \<in> set (client_metrics_env s). \<forall>r2 \<in> set (client_metrics_env s).
        reducer_key dateToString numToString r1 = reducer_key dateToString numToString r2 \<longrightarrow>
        row_fields r1 = row_fields r2)"

text \<open>A store read 24 h after the epoch: one row exactly 24 h old and one a second older.\<close>

definition window_store :: store where
  "window_store = empty_store\<lparr>client_metrics_env :=
     [env_row ''f'' ''old'' ''e'' (- 1000) 1 0, env_row ''f'' ''a'' ''e'' 0 2 0]\<rparr>"

definition no_text :: "int \<Rightarrow> string" where
  "no_text n = []"

text \<open>Two rows of one feature and hour whose application and environment differ and
  join to the same text, each with one variant.\<close>

definition colliding_store :: store where
  "colliding_store = empty_store\<lparr>
     client_metrics_env := [env_row ''f'' ''a_b'' ''c'' 0 1 0, env_row ''f'' ''a'' ''b_c'' 0 1 0],
     client_metrics_env_variants :=
       [variant_row ''f'' ''a_b'' ''c'' 0 ''A'' 2, variant_row ''f'' ''a'' ''b_c'' 0 ''B'' 3]\<rparr>"

section \<open>Properties\<close>

subsection \<open>Statements and the log\<close>

lemma issued_raw: "issued (snd (raw q s)) = issued s @ [q]"
  by (cases q) (auto simp: raw_def Let_def split: sum.splits)

lemma variants_raw_InsertEnv:
  "client_metrics_env_variants (snd (raw (InsertEnv rows) s)) = client_metrics_env_variants s"
  by (auto simp: raw_def Let_def split: sum.splits)

subsection \<open>Empty batches\<close>

text \<open>C9. A batch that is null, undefined or of length zero makes \<open>batchInsertMetrics\<close>
  and \<open>batchInsertTotalMetrics\<close> return with the store as it was: no statement is
  issued and no table changes. A non-empty batch that yields no variant rows makes
  \<open>batchInsertMetrics\<close> issue the insert into \<open>client_metrics_env\<close> only; the
  variant table is not written.\<close>

theorem empty_batch_is_no_op:
  "batchInsertMetrics coll None s = (None, s) \<and>
   batchInsertMetrics coll (Some []) s = (None, s) \<and>
   batchInsertTotalMetrics coll None s = (None, s) \<and>
   batchInsertTotalMetrics coll (Some []) s = (None, s) \<and>
   (ms \<noteq> [] \<and> sortedVariantRows coll ms = [] \<longrightarrow>
      issued (snd (batchInsertMetrics coll (Some ms) s)) =
        issued s @ [InsertEnv (sortedRows coll ms)] \<and>
      client_metrics_env_variants (snd (batchInsertMetrics coll (Some ms) s)) =
        client_metrics_env_variants s)"
proof -
  have "issued (snd (batchInsertMetrics coll (Some ms) s)) =
          issued s @ [InsertEnv (sortedRows coll ms)] \<and>
        client_metrics_env_variants (snd (batchInsertMetrics coll (Some ms) s)) =
          client_metrics_env_variants s"
    if "ms \<noteq> []" "sortedVariantRows coll ms = []"
  proof -
    obtain e s1 where r: "raw (InsertEnv (sortedRows coll ms)) s = (e, s1)"
      by (cases "raw (InsertEnv (sortedRows coll ms)) s")
    have "batchInsertMetrics coll (Some ms) s = (e, s1)"
      using that r by (cases e) (simp_all add: batchInsertMetrics_def)
    moreover have "issued s1 = issued s @ [InsertEnv (sortedRows coll ms)]"
      using issued_raw[of "InsertEnv (sortedRows coll ms)" s] r by simp
    moreover have "client_metrics_env_variants s1 = client_metrics_env_variants s"
      using variants_raw_InsertEnv[of "sortedRows coll ms" s] r by simp
    ultimately show ?thesis by simp
  qed
  then show ?thesis
    by (simp add: batchInsertMetrics_def batchInsertTotalMetrics_def)
qed

theorem empty_batch_is_no_op_witness:
  "[event ''f'' ''a'' ''e'' 5 1 0 None] \<noteq> [] \<and>
   sortedVariantRows (\<lambda>x. x) [event ''f'' ''a'' ''e'' 5 1 0 None] = [] \<and>
   issued (snd (batchInsertMetrics (\<lambda>x. x) (Some [event ''f'' ''a'' ''e'' 5 1 0 None]) empty_store)) =
     [InsertEnv [env_row ''f'' ''a'' ''e'' 0 1 0]] \<and>
   client_metrics_env_variants
     (snd (batchInsertMetrics (\<lambda>x. x) (Some [event ''f'' ''a'' ''e'' 5 1 0 None]) empty_store)) = []"
proof -
  let ?ms = "[event ''f'' ''a'' ''e'' 5 1 0 None]"
  have h: "?ms \<noteq> [] \<and> sortedVariantRows (\<lambda>x. x) ?ms = []"
    by (simp add: sortedVariantRows_def sortVariantRows_def spreadVariants_def
        variantEntries_def event_def)
  have r: "sortedRows (\<lambda>x. x) ?ms = [env_row ''f'' ''a'' ''e'' 0 1 0]"
    by (simp add: sortedRows_def sortRows_def collapseHourlyMetrics_def event_def env_row_def
        accumulate_row_def toRow_def startOfHour_def msPerHour_def)
  from empty_batch_is_no_op [of "\<lambda>x. x" empty_store ?ms] h
  have "issued (snd (batchInsertMetrics (\<lambda>x. x) (Some ?ms) empty_store)) =
          issued empty_store @ [InsertEnv (sortedRows (\<lambda>x. x) ?ms)] \<and>
        client_metrics_env_variants (snd (batchInsertMetrics (\<lambda>x. x) (Some ?ms) empty_store)) =
          client_metrics_env_variants empty_store"
    by blast
  then show ?thesis
    using h by (simp add: r empty_store_def)
qed

subsection \<open>Keyed accumulation\<close>

lemma keys_accumulate_row:
  assumes "\<forall>x r. pk (add x r) = pk x"
  shows "map pk (accumulate_row pk add tbl r) =
         (if pk r \<in> set (map pk tbl) then map pk tbl else map pk tbl @ [pk r])"
  using assms by (simp add: accumulate_row_def)

lemma distinct_accumulate_row:
  assumes "\<forall>x r. pk (add x r) = pk x" and "distinct (map pk tbl)"
  shows "distinct (map pk (accumulate_row pk add tbl r))"
  using assms(2) by (simp add: keys_accumulate_row [OF assms(1)])

lemma distinct_foldl_accumulate:
  assumes "\<forall>x r. pk (add x r) = pk x" and "distinct (map pk tbl)"
  shows "distinct (map pk (foldl (accumulate_row pk add) tbl rows))"
  using assms(2)
proof (induction rows arbitrary: tbl)
  case Nil
  then show ?case by simp
next
  case (Cons r rows)
  then show ?case by (simp add: distinct_accumulate_row [OF assms(1)])
qed

lemma keys_foldl_accumulate:
  assumes "\<forall>x r. pk (add x r) = pk x"
  shows "set (map pk (foldl (accumulate_row pk add) tbl rows)) = set (map pk tbl) \<union> set (map pk rows)"
proof (induction rows arbitrary: tbl)
  case Nil
  then show ?case by simp
next
  case (Cons r rows)
  have "set (map pk (accumulate_row pk add tbl r)) = insert (pk r) (set (map pk tbl))"
    by (auto simp: keys_accumulate_row [OF assms])
  then show ?case using Cons.IH [of "accumulate_row pk add tbl r"] by auto
qed

lemma sum_at_simps [simp]:
  "sum_at pk val k [] = 0"
  "sum_at pk val k (x # xs) = (if pk x = k then val x else 0) + sum_at pk val k xs"
  "sum_at pk val k (xs @ ys) = sum_at pk val k xs + sum_at pk val k ys"
  by (simp_all add: sum_at_def)






subsection \<open>Retention\<close>

lemma clearMetrics_tables:
  "client_metrics_env (snd (clearMetrics now n s)) =
     filter (\<lambda>r. \<not> row_timestamp r \<le> now - n * msPerHour) (client_metrics_env s)"
  by (simp add: clearMetrics_def raw_def)

text \<open>The claim C5 as stated keeps a row whose timestamp is exactly \<open>now\<close> minus
  \<open>N\<close> hours. With \<open>now\<close> = 48 h after the epoch and \<open>N\<close> = 48 the row of
  hour 0 sits on the boundary, and \<open>clearMetrics\<close> deletes it.\<close>

theorem clearMetrics_boundary_counterexample:
  "env_row ''f'' ''a'' ''e'' 0 2 0 \<in> set (client_metrics_env retention_store) \<and>
   row_timestamp (env_row ''f'' ''a'' ''e'' 0 2 0) = 172800000 - 48 * msPerHour \<and>
   env_row ''f'' ''a'' ''e'' 0 2 0 \<notin> set (client_metrics_env (snd (clearMetrics 172800000 48 retention_store)))"
  by (simp add: clearMetrics_tables retention_store_def empty_store_def env_row_def msPerHour_def)

text \<open>C5, amended. After \<open>clearMetrics now N\<close> every remaining row of
  \<open>client_metrics_env\<close> is a row that was there before with a timestamp strictly
  newer than \<open>now\<close> minus \<open>N\<close> hours, and every such row remains. Rows at the
  boundary or older are deleted.\<close>

theorem clearMetrics_retention:
  "(\<forall>r \<in> set (client_metrics_env (snd (clearMetrics now n s))).
      now - n * msPerHour < row_timestamp r \<and> r \<in> set (client_metrics_env s)) \<and>
   (\<forall>r \<in> set (client_metrics_env s).
      now - n * msPerHour < row_timestamp r \<longrightarrow> r \<in> set (client_metrics_env (snd (clearMetrics now n s))))"
  by (auto simp: clearMetrics_tables)

theorem clearMetrics_retention_witness:
  "client_metrics_env (snd (clearMetrics 172800000 48 retention_store)) = [env_row ''f'' ''a'' ''e'' 3600000 3 0] \<and>
   172800000 - 48 * msPerHour < row_timestamp (env_row ''f'' ''a'' ''e'' 3600000 3 0) \<and>
   env_row ''f'' ''a'' ''e'' 3600000 3 0 \<in> set (client_metrics_env retention_store)"
proof -
  have e: "client_metrics_env (snd (clearMetrics 172800000 48 retention_store)) = [env_row ''f'' ''a'' ''e'' 3600000 3 0]"
    by (simp add: clearMetrics_tables retention_store_def empty_store_def env_row_def msPerHour_def)
  from clearMetrics_retention [of 172800000 48 retention_store]
  have "\<forall>r \<in> set (client_metrics_env (snd (clearMetrics 172800000 48 retention_store))).
      172800000 - 48 * msPerHour < row_timestamp r \<and> r \<in> set (client_metrics_env retention_store)"
    by blast
  then show ?thesis using e by simp
qed

subsection \<open>Point lookup\<close>

lemma filter_key_distinct:
  "distinct (map pk tbl) \<Longrightarrow> row \<in> set tbl \<Longrightarrow> filter (\<lambda>x. pk x = pk row) tbl = [row]"
proof (induction tbl)
  case Nil
  then show ?case by simp
next
  case (Cons x tbl)
  show ?case
  proof (cases "x = row")
    case True
    have "pk row \<notin> pk ` set tbl"
      using Cons.prems(1) True by simp
    then have "\<forall>y \<in> set tbl. pk y \<noteq> pk row"
      by (metis imageI)
    then have "filter (\<lambda>y. pk y = pk row) tbl = []"
      by (simp add: filter_empty_conv)
    then show ?thesis using True by simp
  next
    case False
    then have "row \<in> set tbl" using Cons.prems(2) by simp
    moreover have "pk x \<noteq> pk row" using Cons.prems(1) calculation by auto
    ultimately show ?thesis using Cons by simp
  qed
qed

lemma get_filter:
  "get s key = (case filter (\<lambda>row. env_pk row = metric_key key) (client_metrics_env s) of
                  row # _ \<Rightarrow> Inr (fromRow row) | [] \<Rightarrow> Inl NotFoundError)"
  by (simp add: get_def env_pk_def metric_key_def)

text \<open>The claim C10 as stated makes \<open>get\<close> fail with NotFound exactly when no record
  is stored at the key it is given. The key of half past midnight has no record stored at
  it, and \<open>get\<close> answers with the record of midnight: the lookup floors the key's
  timestamp to its hour first.\<close>

theorem get_exact_key_counterexample:
  "(''f'', ''a'', ''e'', timestamp halfpast_key) \<notin> set (map env_pk (client_metrics_env retention_store)) \<and>
   (featureName halfpast_key, appName halfpast_key, environment halfpast_key) = (''f'', ''a'', ''e'') \<and>
   get retention_store halfpast_key = Inr (fromRow (env_row ''f'' ''a'' ''e'' 0 2 0)) \<and>
   get retention_store halfpast_key \<noteq> Inl NotFoundError"
  by (simp add: get_def retention_store_def empty_store_def env_row_def halfpast_key_def
      env_pk_def startOfHour_def msPerHour_def)

text \<open>C10, amended. In a table with at most one row per primary key, \<open>get key\<close>
  returns the record stored at the key whose timestamp is that of \<open>key\<close> floored to
  the start of its hour, and fails with NotFound if and only if no record exists at that
  floored key; \<open>exists key\<close> is a boolean, true exactly when \<open>get key\<close> succeeds and
  false exactly when it fails with NotFound.\<close>

theorem get_and_exists:
  assumes "distinct (map env_pk (client_metrics_env s))"
  shows "(row \<in> set (client_metrics_env s) \<and> env_pk row = metric_key key \<longrightarrow>
            get s key = Inr (fromRow row)) \<and>
         (get s key = Inl NotFoundError \<longleftrightarrow> metric_key key \<notin> set (map env_pk (client_metrics_env s))) \<and>
         (exists s key \<longleftrightarrow> (\<exists>m. get s key = Inr m)) \<and>
         (\<not> exists s key \<longleftrightarrow> get s key = Inl NotFoundError)"
proof -
  have a: "get s key = Inr (fromRow row)"
    if "row \<in> set (client_metrics_env s)" "env_pk row = metric_key key"
  proof -
    have "filter (\<lambda>x. env_pk x = env_pk row) (client_metrics_env s) = [row]"
      using assms that(1) by (rule filter_key_distinct)
    then show ?thesis by (simp add: get_filter that(2))
  qed
  have b: "get s key = Inl NotFoundError \<longleftrightarrow>
           metric_key key \<notin> set (map env_pk (client_metrics_env s))"
  proof (cases "filter (\<lambda>row. env_pk row = metric_key key) (client_metrics_env s)")
    case Nil
    then show ?thesis by (auto simp: get_filter filter_empty_conv)
  next
    case (Cons x xs)
    then have "x \<in> set (filter (\<lambda>row. env_pk row = metric_key key) (client_metrics_env s))"
      by simp
    then have "metric_key key \<in> set (map env_pk (client_metrics_env s))" by force
    then show ?thesis using Cons by (simp add: get_filter)
  qed
  have c: "get s key = Inl NotFoundError \<or> (\<exists>m. get s key = Inr m)"
    by (simp add: get_filter split: list.splits)
  have d: "exists s key \<longleftrightarrow> (\<exists>m. get s key = Inr m)"
    by (auto simp: exists_def split: sum.splits)
  show ?thesis using a b c d by auto
qed

theorem get_and_exists_witness:
  "distinct (map env_pk (client_metrics_env retention_store)) \<and>
   env_row ''f'' ''a'' ''e'' 0 2 0 \<in> set (client_metrics_env retention_store) \<and>
   env_pk (env_row ''f'' ''a'' ''e'' 0 2 0) = metric_key halfpast_key \<and>
   get retention_store halfpast_key = Inr (fromRow (env_row ''f'' ''a'' ''e'' 0 2 0)) \<and>
   exists retention_store halfpast_key"
proof -
  have h: "distinct (map env_pk (client_metrics_env retention_store))"
    by (simp add: retention_store_def empty_store_def env_row_def env_pk_def)
  have m: "env_row ''f'' ''a'' ''e'' 0 2 0 \<in> set (client_metrics_env retention_store) \<and>
     env_pk (env_row ''f'' ''a'' ''e'' 0 2 0) = metric_key halfpast_key"
    by (simp add: retention_store_def empty_store_def env_row_def env_pk_def metric_key_def
        halfpast_key_def startOfHour_def msPerHour_def)
  from get_and_exists [OF h, of "env_row ''f'' ''a'' ''e'' 0 2 0" halfpast_key] m
  have "get retention_store halfpast_key = Inr (fromRow (env_row ''f'' ''a'' ''e'' 0 2 0)) \<and>
        exists retention_store halfpast_key"
    by blast
  then show ?thesis using h m by simp
qed

subsection \<open>Hours\<close>

lemma startOfHour_bounds:
  "startOfHour t \<le> t \<and> t < startOfHour t + msPerHour \<and> startOfHour t mod msPerHour = 0"
proof -
  have "0 \<le> t mod msPerHour \<and> t mod msPerHour < msPerHour"
    by (simp add: msPerHour_def)
  moreover have "(t - t mod msPerHour) mod msPerHour = 0"
    by (simp add: minus_mod_eq_mult_div)
  ultimately show ?thesis by (simp add: startOfHour_def)
qed

lemma startOfHour_idem [simp]: "startOfHour (startOfHour t) = startOfHour t"
  using startOfHour_bounds [of t] by (simp add: startOfHour_def [of "startOfHour t"])

subsection \<open>Compaction\<close>

lemma metric_key_add_metric: "\<forall>x m. metric_key (add_metric x m) = metric_key x"
  by (simp add: metric_key_def add_metric_def)

lemma yes_add_metric: "\<forall>x m. yes (add_metric x m) = yes x + yes m"
  by (simp add: add_metric_def)

lemma no_add_metric: "\<forall>x m. no (add_metric x m) = no x + no m"
  by (simp add: add_metric_def)

lemma metric_key_floored [simp]:
  "metric_key (m\<lparr>timestamp := startOfHour (timestamp m)\<rparr>) = metric_key m"
  by (simp add: metric_key_def)

lemma env_pk_toRow [simp]: "env_pk (toRow m) = metric_key m"
  by (simp add: env_pk_def toRow_def metric_key_def)

lemma distinct_collapse: "distinct (map metric_key (collapseHourlyMetrics ms))"
  unfolding collapseHourlyMetrics_def
  by (rule distinct_foldl_accumulate [OF metric_key_add_metric]) simp

lemma keys_collapse: "set (map metric_key (collapseHourlyMetrics ms)) = set (map metric_key ms)"
proof -
  let ?floored = "map (\<lambda>m. m\<lparr>timestamp := startOfHour (timestamp m)\<rparr>) ms"
  have "set (map metric_key (collapseHourlyMetrics ms)) =
        set (map metric_key ([] :: IClientMetricsEnv list)) \<union> set (map metric_key ?floored)"
    unfolding collapseHourlyMetrics_def
    by (rule keys_foldl_accumulate [OF metric_key_add_metric])
  also have "map metric_key ?floored = map metric_key ms"
    by simp
  finally show ?thesis by simp
qed




lemma set_sortedRows: "set (sortedRows coll ms) = toRow ` set (collapseHourlyMetrics ms)"
  by (simp add: sortedRows_def sortRows_def)

lemma keys_sortedRows: "set (map env_pk (sortedRows coll ms)) = set (map metric_key ms)"
  using keys_collapse [of ms] by (simp add: set_sortedRows image_image)

lemma distinct_map_sort_key:
  "distinct (map pk (sort_key f xs)) = distinct (map pk xs)"
  by (simp add: distinct_map)

lemma distinct_sortedRows: "distinct (map env_pk (sortedRows coll ms))"
  using distinct_collapse [of ms]
  by (simp add: sortedRows_def sortRows_def distinct_map_sort_key o_def)


lemma sortedRows_nonempty: "ms \<noteq> [] \<Longrightarrow> sortedRows coll ms \<noteq> []"
proof -
  assume "ms \<noteq> []"
  then have "set (map metric_key ms) \<noteq> {}" by simp
  then have "set (map env_pk (sortedRows coll ms)) \<noteq> {}"
    using keys_sortedRows [of coll ms] by simp
  then show ?thesis by auto
qed

lemma raw_InsertEnv_sortedRows:
  "ms \<noteq> [] \<Longrightarrow> raw (InsertEnv (sortedRows coll ms)) s =
     (None, s\<lparr>issued := issued s @ [InsertEnv (sortedRows coll ms)],
        client_metrics_env := foldl (accumulate_row env_pk add_env) (client_metrics_env s) (sortedRows coll ms)\<rparr>)"
  by (simp add: raw_def insert_on_conflict_def sortedRows_nonempty distinct_sortedRows)

subsection \<open>Variant spreading\<close>

lemma variant_key_add_count: "\<forall>x v. variant_key (add_count x v) = variant_key x"
  by (simp add: variant_key_def metric_key_def add_count_def)

lemma count_add_count: "\<forall>x v. count (add_count x v) = count x + count v"
  by (simp add: add_count_def)

lemma variant_pk_toVariantRow [simp]: "variant_pk (toVariantRow v) = variant_key v"
  by (simp add: variant_pk_def env_pk_def toVariantRow_def variant_key_def metric_key_def)

lemma distinct_spread: "distinct (map variant_key (spreadVariants ms))"
  unfolding spreadVariants_def
  by (rule distinct_foldl_accumulate [OF variant_key_add_count]) simp



lemma set_sortedVariantRows:
  "set (sortedVariantRows coll ms) = toVariantRow ` set (spreadVariants ms)"
  by (simp add: sortedVariantRows_def sortVariantRows_def)

lemma distinct_sortedVariantRows: "distinct (map variant_pk (sortedVariantRows coll ms))"
  using distinct_spread [of ms]
  by (simp add: sortedVariantRows_def sortVariantRows_def distinct_map_sort_key o_def)



lemma raw_InsertVariants_sortedVariantRows:
  "sortedVariantRows coll ms \<noteq> [] \<Longrightarrow> raw (InsertVariants (sortedVariantRows coll ms)) s =
     (None, s\<lparr>issued := issued s @ [InsertVariants (sortedVariantRows coll ms)],
        client_metrics_env_variants :=
          foldl (accumulate_row variant_pk add_variant) (client_metrics_env_variants s)
            (sortedVariantRows coll ms)\<rparr>)"
  by (simp add: raw_def insert_on_conflict_def distinct_sortedVariantRows)

text \<open>What a non-empty batch does to the store.\<close>

lemma batchInsertMetrics_nonempty:
  assumes "ms \<noteq> []"
  shows "batchInsertMetrics coll (Some ms) s =
     (None, s\<lparr>issued := issued s @ InsertEnv (sortedRows coll ms) #
                  (if sortedVariantRows coll ms = [] then []
                   else [InsertVariants (sortedVariantRows coll ms)]),
        client_metrics_env :=
          foldl (accumulate_row env_pk add_env) (client_metrics_env s) (sortedRows coll ms),
        client_metrics_env_variants :=
          foldl (accumulate_row variant_pk add_variant) (client_metrics_env_variants s)
            (sortedVariantRows coll ms)\<rparr>)"
proof (cases "sortedVariantRows coll ms = []")
  case True
  then show ?thesis
    using assms by (simp add: batchInsertMetrics_def raw_InsertEnv_sortedRows)
next
  case False
  then show ?thesis
    using assms
    by (simp add: batchInsertMetrics_def raw_InsertEnv_sortedRows
        raw_InsertVariants_sortedVariantRows)
qed

subsection \<open>What batchInsertMetrics submits\<close>





subsection \<open>The order of submitted rows\<close>

lemma sortRows_key: "sortRows coll rows = sort_key (env_sort_key coll) rows"
  by (simp add: sortRows_def env_sort_key_def [abs_def])

lemma sortVariantRows_key: "sortVariantRows coll rows = sort_key (variant_sort_key coll) rows"
  by (simp add: sortVariantRows_def variant_sort_key_def [abs_def])

lemma sortedRows_late_first:
  "sortedRows byte_order late_first =
     [env_row ''f'' ''app'' ''prod'' 3600000 1 0, env_row ''f'' ''app'' ''prod'' 0 1 0]"
  by (simp add: sortedRows_def sortRows_def collapseHourlyMetrics_def late_first_def event_def
      env_row_def accumulate_row_def add_metric_def metric_key_def toRow_def startOfHour_def
      msPerHour_def byte_order_def)

lemma sortedVariantRows_late_first:
  "sortedVariantRows byte_order late_first =
     [variant_row ''f'' ''app'' ''prod'' 3600000 ''a'' 1, variant_row ''f'' ''app'' ''prod'' 0 ''b'' 1]"
  by (simp add: sortedVariantRows_def sortVariantRows_def spreadVariants_def variantEntries_def
      late_first_def event_def variant_row_def accumulate_row_def add_count_def variant_key_def
      metric_key_def toVariantRow_def startOfHour_def msPerHour_def byte_order_def)

text \<open>C4 asks that the rows submitted to the store are always sorted by the full primary
  key of their table, the order that the comment "Sort the rows to avoid deadlocks" is
  after. Both comparators of \<open>batchInsertMetrics\<close> leave the timestamp out, which is
  part of both primary keys. Two hourly rows of one feature, application and environment
  tie under the comparator for every collation, so the sort returns them as it got them:
  the batch \<open>late_first\<close> submits hour 1 before hour 0, the same batch reversed
  submits hour 0 before hour 1, and the first sequence is not sorted by the primary key.
  The variant rows of \<open>late_first\<close> are submitted with (hour 1, \<open>a\<close>) before
  (hour 0, \<open>b\<close>), whatever order they had before the sort: not sorted by their
  primary key either.\<close>

theorem timestamp_left_out_of_sort:
  "sortRows coll [env_row ''f'' ''app'' ''prod'' 3600000 1 0, env_row ''f'' ''app'' ''prod'' 0 1 0] =
     [env_row ''f'' ''app'' ''prod'' 3600000 1 0, env_row ''f'' ''app'' ''prod'' 0 1 0] \<and>
   sortRows coll [env_row ''f'' ''app'' ''prod'' 0 1 0, env_row ''f'' ''app'' ''prod'' 3600000 1 0] =
     [env_row ''f'' ''app'' ''prod'' 0 1 0, env_row ''f'' ''app'' ''prod'' 3600000 1 0] \<and>
   sortedRows coll late_first =
     [env_row ''f'' ''app'' ''prod'' 3600000 1 0, env_row ''f'' ''app'' ''prod'' 0 1 0] \<and>
   sortedRows coll (rev late_first) =
     [env_row ''f'' ''app'' ''prod'' 0 1 0, env_row ''f'' ''app'' ''prod'' 3600000 1 0] \<and>
   \<not> sorted (map (env_full_key coll) (sortedRows coll late_first)) \<and>
   issued (snd (batchInsertMetrics byte_order (Some late_first) empty_store)) =
     [InsertEnv [env_row ''f'' ''app'' ''prod'' 3600000 1 0, env_row ''f'' ''app'' ''prod'' 0 1 0],
      InsertVariants [variant_row ''f'' ''app'' ''prod'' 3600000 ''a'' 1,
                      variant_row ''f'' ''app'' ''prod'' 0 ''b'' 1]] \<and>
   \<not> sorted (map (variant_full_key byte_order) (sortedVariantRows byte_order late_first))"
proof -
  let ?r1 = "env_row ''f'' ''app'' ''prod'' 3600000 1 0" and ?r0 = "env_row ''f'' ''app'' ''prod'' 0 1 0"
  have s1: "sortRows coll [?r1, ?r0] = [?r1, ?r0]"
    by (simp add: sortRows_def env_row_def)
  have s0: "sortRows coll [?r0, ?r1] = [?r0, ?r1]"
    by (simp add: sortRows_def env_row_def)
  have c1: "map toRow (collapseHourlyMetrics late_first) = [?r1, ?r0]"
    by (simp add: collapseHourlyMetrics_def late_first_def event_def
      env_row_def accumulate_row_def add_metric_def metric_key_def toRow_def startOfHour_def
      msPerHour_def)
  have c0: "map toRow (collapseHourlyMetrics (rev late_first)) = [?r0, ?r1]"
    by (simp add: collapseHourlyMetrics_def late_first_def event_def
      env_row_def accumulate_row_def add_metric_def metric_key_def toRow_def startOfHour_def
      msPerHour_def)
  have b1: "sortedRows coll late_first = [?r1, ?r0]"
    by (simp only: sortedRows_def c1 s1)
  have b0: "sortedRows coll (rev late_first) = [?r0, ?r1]"
    by (simp only: sortedRows_def c0 s0)
  have u: "\<not> sorted (map (env_full_key coll) (sortedRows coll late_first))"
    by (simp add: b1 env_full_key_def env_row_def)
  have ne: "late_first \<noteq> []" by (simp add: late_first_def)
  have l: "issued (snd (batchInsertMetrics byte_order (Some late_first) empty_store)) =
     [InsertEnv [?r1, ?r0],
      InsertVariants [variant_row ''f'' ''app'' ''prod'' 3600000 ''a'' 1,
                      variant_row ''f'' ''app'' ''prod'' 0 ''b'' 1]]"
    by (simp add: batchInsertMetrics_nonempty [OF ne] sortedRows_late_first
        sortedVariantRows_late_first empty_store_def)
  have v: "\<not> sorted (map (variant_full_key byte_order) (sortedVariantRows byte_order late_first))"
    by (simp add: sortedVariantRows_late_first variant_full_key_def variant_row_def byte_order_def)
  show ?thesis using s1 s0 b1 b0 u l v by blast
qed

text \<open>What the two sorts do achieve: for every non-empty batch the hourly rows that
  \<open>batchInsertMetrics\<close> submits are sorted lexicographically by the collation of
  feature, application and environment, and the variant rows by feature, application,
  environment and variant; rows that tie on the compared components are submitted in the
  order they had before the sort.\<close>

lemma submitted_rows_sorted:
  "ms \<noteq> [] \<longrightarrow>
     issued (snd (batchInsertMetrics coll (Some ms) s)) =
       issued s @ InsertEnv (sortedRows coll ms) #
         (if sortedVariantRows coll ms = [] then []
          else [InsertVariants (sortedVariantRows coll ms)]) \<and>
     sorted (map (env_sort_key coll) (sortedRows coll ms)) \<and>
     sorted (map (variant_sort_key coll) (sortedVariantRows coll ms)) \<and>
     filter (\<lambda>r. env_sort_key coll r = k) (sortedRows coll ms) =
       filter (\<lambda>r. env_sort_key coll r = k) (map toRow (collapseHourlyMetrics ms)) \<and>
     filter (\<lambda>r. variant_sort_key coll r = k') (sortedVariantRows coll ms) =
       filter (\<lambda>r. variant_sort_key coll r = k') (map toVariantRow (spreadVariants ms))"
  by (simp add: batchInsertMetrics_nonempty sortedRows_def sortedVariantRows_def sortRows_key
      sortVariantRows_key sort_key_stable)

lemma submitted_rows_sorted_late_first:
  "late_first \<noteq> [] \<and>
   sortedRows byte_order late_first =
     [env_row ''f'' ''app'' ''prod'' 3600000 1 0, env_row ''f'' ''app'' ''prod'' 0 1 0] \<and>
   sorted (map (env_sort_key byte_order) (sortedRows byte_order late_first)) \<and>
   sorted (map (variant_sort_key byte_order) (sortedVariantRows byte_order late_first))"
proof -
  have ne: "late_first \<noteq> []" by (simp add: late_first_def)
  from submitted_rows_sorted [of late_first byte_order empty_store] ne
  have "sorted (map (env_sort_key byte_order) (sortedRows byte_order late_first)) \<and>
        sorted (map (variant_sort_key byte_order) (sortedVariantRows byte_order late_first))"
    by blast
  then show ?thesis using ne by (simp add: sortedRows_late_first)
qed

subsection \<open>One row per primary key\<close>

lemma env_pk_add_env: "\<forall>x r. env_pk (add_env x r) = env_pk x"
  by (simp add: env_pk_def add_env_def)

lemma variant_pk_add_variant: "\<forall>x r. variant_pk (add_variant x r) = variant_pk x"
  by (simp add: variant_pk_def env_pk_def add_variant_def)

lemma total_pk_add_total: "\<forall>x r. total_pk (add_total x r) = total_pk x"
  by (simp add: total_pk_def add_total_def)

lemma distinct_insert_on_conflict:
  assumes "\<forall>x r. pk (add x r) = pk x" and "distinct (map pk tbl)"
    and "insert_on_conflict pk add rows tbl = Inr tbl'"
  shows "distinct (map pk tbl')"
proof -
  have "tbl' = foldl (accumulate_row pk add) tbl rows"
    using assms(3) by (simp add: insert_on_conflict_def split: if_splits)
  then show ?thesis
    using distinct_foldl_accumulate [OF assms(1,2)] by simp
qed

lemma pk_invariant_execute:
  assumes "pk_invariant s" and "execute q s = Inr s'"
  shows "pk_invariant s'"
proof (cases q)
  case (InsertEnv rows)
  then show ?thesis
    using assms distinct_insert_on_conflict [OF env_pk_add_env]
    by (auto simp: pk_invariant_def split: sum.splits)
next
  case (InsertVariants rows)
  then show ?thesis
    using assms distinct_insert_on_conflict [OF variant_pk_add_variant]
    by (auto simp: pk_invariant_def split: sum.splits)
next
  case (InsertTotal rows)
  then show ?thesis
    using assms distinct_insert_on_conflict [OF total_pk_add_total]
    by (auto simp: pk_invariant_def split: sum.splits)
next
  case (DeleteEnvWhereKey k)
  then show ?thesis
    using assms by (auto simp: pk_invariant_def distinct_map_filter)
next
  case DeleteEnvAll
  then show ?thesis
    using assms by (auto simp: pk_invariant_def)
next
  case (DeleteEnvWhereTimestampLe c)
  then show ?thesis
    using assms by (auto simp: pk_invariant_def distinct_map_filter)
qed

lemma pk_invariant_issued [simp]: "pk_invariant (s\<lparr>issued := l\<rparr>) = pk_invariant s"
  by (simp add: pk_invariant_def)

lemma pk_invariant_raw:
  assumes "pk_invariant s"
  shows "pk_invariant (snd (raw q s))"
proof (cases "execute q (s\<lparr>issued := issued s @ [q]\<rparr>)")
  case (Inl e)
  then show ?thesis using assms by (simp add: raw_def)
next
  case (Inr s')
  have "pk_invariant (s\<lparr>issued := issued s @ [q]\<rparr>)" using assms by simp
  then have "pk_invariant s'" using Inr by (rule pk_invariant_execute)
  then show ?thesis using Inr by (simp add: raw_def)
qed

lemma pk_invariant_batchInsertMetrics:
  assumes "pk_invariant s"
  shows "pk_invariant (snd (batchInsertMetrics coll metrics s))"
proof (cases metrics)
  case None
  then show ?thesis using assms by (simp add: batchInsertMetrics_def)
next
  case (Some ms)
  show ?thesis
  proof (cases "ms = []")
    case True
    then show ?thesis using assms Some by (simp add: batchInsertMetrics_def)
  next
    case False
    let ?s1 = "snd (raw (InsertEnv (sortedRows coll ms)) s)"
    have s1: "pk_invariant ?s1" using assms by (rule pk_invariant_raw)
    have s2: "pk_invariant (snd (raw (InsertVariants (sortedVariantRows coll ms)) ?s1))"
      using s1 by (rule pk_invariant_raw)
    show ?thesis
      using False Some s1 s2
      by (auto simp: batchInsertMetrics_def split: prod.splits option.splits)
  qed
qed

lemma pk_invariant_batchInsertTotalMetrics:
  assumes "pk_invariant s"
  shows "pk_invariant (snd (batchInsertTotalMetrics coll metrics s))"
  using assms pk_invariant_raw [OF assms]
  by (auto simp: batchInsertTotalMetrics_def split: option.splits)

lemma pk_invariant_perform:
  assumes "pk_invariant s"
  shows "pk_invariant (snd (perform coll op s))"
proof (cases op)
  case (BatchInsertMetrics metrics)
  then show ?thesis using pk_invariant_batchInsertMetrics [OF assms] by simp
next
  case (BatchInsertTotalMetrics metrics)
  then show ?thesis using pk_invariant_batchInsertTotalMetrics [OF assms] by simp
next
  case (Delete key)
  then show ?thesis using pk_invariant_raw [OF assms] by (simp add: delete_def)
next
  case DeleteAll
  then show ?thesis using pk_invariant_raw [OF assms] by (simp add: deleteAll_def)
next
  case (ClearMetrics now hoursAgo)
  then show ?thesis using pk_invariant_raw [OF assms] by (simp add: clearMetrics_def)
qed

lemma pk_invariant_run: "pk_invariant s \<Longrightarrow> pk_invariant (run coll ops s)"
  unfolding run_def
proof (induction ops arbitrary: s)
  case Nil
  then show ?case by simp
next
  case (Cons op ops)
  then show ?case by (simp add: pk_invariant_perform)
qed

subsection \<open>Counters only grow\<close>

lemma grow_accumulate_row:
  assumes refl: "\<forall>x. R x x" and step: "\<forall>x. R x (add x r)"
    and x: "x \<in> set tbl"
  shows "\<exists>x' \<in> set (accumulate_row pk add tbl r). R x x'"
proof (cases "pk r \<in> set (map pk tbl)")
  case True
  let ?x' = "if pk x = pk r then add x r else x"
  have "?x' \<in> set (accumulate_row pk add tbl r)"
    using True x by (auto simp: accumulate_row_def)
  moreover have "R x ?x'" using refl step by simp
  ultimately show ?thesis by blast
next
  case False
  then have "x \<in> set (accumulate_row pk add tbl r)"
    using x by (simp add: accumulate_row_def)
  then show ?thesis using refl by blast
qed

lemma grow_foldl_accumulate:
  assumes refl: "\<forall>x. R x x" and trans: "\<forall>x y z. R x y \<longrightarrow> R y z \<longrightarrow> R x z"
    and step: "\<forall>r \<in> set rows. \<forall>x. R x (add x r)"
    and x: "x \<in> set tbl"
  shows "\<exists>x' \<in> set (foldl (accumulate_row pk add) tbl rows). R x x'"
  using step x
proof (induction rows arbitrary: tbl x)
  case Nil
  then show ?case using refl by auto
next
  case (Cons r rows)
  have "\<forall>y. R y (add y r)" using Cons.prems(1) by simp
  from grow_accumulate_row [where R = R and add = add and r = r, OF refl this Cons.prems(2)]
  obtain y where y: "y \<in> set (accumulate_row pk add tbl r)" and xy: "R x y"
    by blast
  have "\<forall>r \<in> set rows. \<forall>x. R x (add x r)" using Cons.prems(1) by simp
  from Cons.IH [OF this y]
  obtain z where z: "z \<in> set (foldl (accumulate_row pk add) (accumulate_row pk add tbl r) rows)"
    and yz: "R y z"
    by blast
  have "R x z" using trans xy yz by blast
  then show ?case using z by auto
qed

lemma nonneg_foldl_accumulate:
  assumes add: "\<forall>x r. val (add x r) = val x + val r"
    and tbl: "\<forall>x \<in> set tbl. 0 \<le> val x" and rows: "\<forall>r \<in> set rows. (0::int) \<le> val r"
  shows "\<forall>x \<in> set (foldl (accumulate_row pk add) tbl rows). 0 \<le> val x"
  using tbl rows
proof (induction rows arbitrary: tbl)
  case Nil
  then show ?case by simp
next
  case (Cons r rows)
  have "\<forall>x \<in> set (accumulate_row pk add tbl r). 0 \<le> val x"
    using Cons.prems add by (auto simp: accumulate_row_def)
  then show ?case using Cons.IH Cons.prems(2) by simp
qed

lemma env_grows_refl: "\<forall>x. env_grows x x"
  by (simp add: env_grows_def)

lemma env_grows_trans: "\<forall>x y z. env_grows x y \<longrightarrow> env_grows y z \<longrightarrow> env_grows x z"
  by (auto simp: env_grows_def)

lemma variant_grows_refl: "\<forall>x. variant_grows x x"
  by (simp add: variant_grows_def)

lemma variant_grows_trans:
  "\<forall>x y z. variant_grows x y \<longrightarrow> variant_grows y z \<longrightarrow> variant_grows x z"
  by (auto simp: variant_grows_def)

lemma total_grows_refl: "\<forall>x. total_grows x x"
  by (simp add: total_grows_def)

lemma total_grows_trans: "\<forall>x y z. total_grows x y \<longrightarrow> total_grows y z \<longrightarrow> total_grows x z"
  by (auto simp: total_grows_def)

lemma counters_grow_refl: "counters_grow s s"
  using env_grows_refl variant_grows_refl total_grows_refl
  by (auto simp: counters_grow_def)

lemma counters_grow_trans:
  assumes "counters_grow s t" and "counters_grow t u"
  shows "counters_grow s u"
  unfolding counters_grow_def
proof (intro conjI ballI)
  fix r assume "r \<in> set (client_metrics_env s)"
  then obtain r' where "r' \<in> set (client_metrics_env t)" "env_grows r r'"
    using assms(1) by (auto simp: counters_grow_def)
  moreover then obtain r'' where "r'' \<in> set (client_metrics_env u)" "env_grows r' r''"
    using assms(2) by (auto simp: counters_grow_def)
  ultimately show "\<exists>r' \<in> set (client_metrics_env u). env_grows r r'"
    using env_grows_trans by blast
next
  fix r assume "r \<in> set (client_metrics_env_variants s)"
  then obtain r' where "r' \<in> set (client_metrics_env_variants t)" "variant_grows r r'"
    using assms(1) by (auto simp: counters_grow_def)
  moreover then obtain r'' where "r'' \<in> set (client_metrics_env_variants u)" "variant_grows r' r''"
    using assms(2) by (auto simp: counters_grow_def)
  ultimately show "\<exists>r' \<in> set (client_metrics_env_variants u). variant_grows r r'"
    using variant_grows_trans by blast
next
  fix r assume "r \<in> set (client_metrics_total s)"
  then obtain r' where "r' \<in> set (client_metrics_total t)" "total_grows r r'"
    using assms(1) by (auto simp: counters_grow_def)
  moreover then obtain r'' where "r'' \<in> set (client_metrics_total u)" "total_grows r' r''"
    using assms(2) by (auto simp: counters_grow_def)
  ultimately show "\<exists>r' \<in> set (client_metrics_total u). total_grows r r'"
    using total_grows_trans by blast
qed

text \<open>Inserting rows whose counters are not negative.\<close>

lemma env_table_grows:
  assumes "\<forall>r \<in> set rows. 0 \<le> row_yes r \<and> 0 \<le> row_no r" and "x \<in> set tbl"
  shows "\<exists>x' \<in> set (foldl (accumulate_row env_pk add_env) tbl rows). env_grows x x'"
proof (rule grow_foldl_accumulate [where R = env_grows and add = add_env,
      OF env_grows_refl env_grows_trans _ assms(2)])
  show "\<forall>r \<in> set rows. \<forall>x. env_grows x (add_env x r)"
    using assms(1) by (simp add: env_grows_def add_env_def env_pk_def)
qed

lemma variant_table_grows:
  assumes "\<forall>r \<in> set rows. 0 \<le> row_count r" and "x \<in> set tbl"
  shows "\<exists>x' \<in> set (foldl (accumulate_row variant_pk add_variant) tbl rows). variant_grows x x'"
proof (rule grow_foldl_accumulate [where R = variant_grows and add = add_variant,
      OF variant_grows_refl variant_grows_trans _ assms(2)])
  show "\<forall>r \<in> set rows. \<forall>x. variant_grows x (add_variant x r)"
    using assms(1) by (simp add: variant_grows_def add_variant_def variant_pk_def env_pk_def)
qed

lemma total_table_grows:
  assumes "\<forall>r \<in> set rows. 0 \<le> total r" and "x \<in> set tbl"
  shows "\<exists>x' \<in> set (foldl (accumulate_row total_pk add_total) tbl rows). total_grows x x'"
proof (rule grow_foldl_accumulate [where R = total_grows and add = add_total,
      OF total_grows_refl total_grows_trans _ assms(2)])
  show "\<forall>r \<in> set rows. \<forall>x. total_grows x (add_total x r)"
    using assms(1) by (simp add: total_grows_def add_total_def total_pk_def)
qed

text \<open>The rows of a batch of valid events have counters that are not negative.\<close>

lemma nonneg_sortedRows:
  assumes "list_all valid_event ms" and "r \<in> set (sortedRows coll ms)"
  shows "0 \<le> row_yes r \<and> 0 \<le> row_no r"
proof -
  let ?floored = "map (\<lambda>m. m\<lparr>timestamp := startOfHour (timestamp m)\<rparr>) ms"
  have v: "\<forall>m \<in> set ?floored. 0 \<le> yes m" "\<forall>m \<in> set ?floored. 0 \<le> no m"
    using assms(1) by (auto simp: list_all_iff valid_event_def)
  have y: "\<forall>x \<in> set (collapseHourlyMetrics ms). 0 \<le> yes x"
    unfolding collapseHourlyMetrics_def
    by (rule nonneg_foldl_accumulate [OF yes_add_metric _ v(1)]) simp
  have n: "\<forall>x \<in> set (collapseHourlyMetrics ms). 0 \<le> no x"
    unfolding collapseHourlyMetrics_def
    by (rule nonneg_foldl_accumulate [OF no_add_metric _ v(2)]) simp
  from assms(2) obtain x where "x \<in> set (collapseHourlyMetrics ms)" "r = toRow x"
    by (auto simp: set_sortedRows)
  then show ?thesis using y n by (simp add: toRow_def)
qed

lemma nonneg_variantEntries:
  assumes "valid_event m" and "v \<in> set (variantEntries m)"
  shows "0 \<le> count v"
  using assms by (auto simp: valid_event_def variantEntries_def list_all_iff split: option.splits)

lemma nonneg_sortedVariantRows:
  assumes "list_all valid_event ms" and "r \<in> set (sortedVariantRows coll ms)"
  shows "0 \<le> row_count r"
proof -
  have v: "\<forall>v \<in> set (concat (map variantEntries ms)). 0 \<le> count v"
    using assms(1) nonneg_variantEntries by (auto simp: list_all_iff)
  have c: "\<forall>x \<in> set (spreadVariants ms). 0 \<le> count x"
    unfolding spreadVariants_def
    by (rule nonneg_foldl_accumulate [OF count_add_count _ v]) simp
  from assms(2) obtain x where "x \<in> set (spreadVariants ms)" "r = toVariantRow x"
    by (auto simp: set_sortedVariantRows)
  then show ?thesis using c by (simp add: toVariantRow_def)
qed

lemma set_AList_update: "set (AList.update k v al) \<subseteq> insert (k, v) (set al)"
  by (induction al) auto

lemma nonneg_aggregate_metric:
  assumes "\<forall>(k, t) \<in> set agg. (0::int) \<le> t" and "valid_event m"
  shows "\<forall>(k, t) \<in> set (aggregate_metric agg m). 0 \<le> t"
proof -
  let ?key = "featureName m @ ''_'' @ environment m"
  have inc: "0 \<le> yes m + no m" using assms(2) by (simp add: valid_event_def)
  show ?thesis
  proof (cases "map_of agg ?key")
    case None
    then have "set (aggregate_metric agg m) \<subseteq> insert (?key, yes m + no m) (set agg)"
      using set_AList_update [of ?key "yes m + no m" agg] by (simp add: aggregate_metric_def)
    then show ?thesis using assms(1) inc by auto
  next
    case (Some t)
    then have "(?key, t) \<in> set agg" by (rule map_of_SomeD)
    then have t: "0 \<le> t" using assms(1) by auto
    have "set (aggregate_metric agg m) \<subseteq> insert (?key, t + (yes m + no m)) (set agg)"
      using Some set_AList_update [of ?key "t + (yes m + no m)" agg]
      by (simp add: aggregate_metric_def)
    then show ?thesis using assms(1) inc t by auto
  qed
qed

lemma nonneg_aggregated:
  assumes "list_all valid_event ms" and "\<forall>(k, t) \<in> set agg. (0::int) \<le> t"
  shows "\<forall>(k, t) \<in> set (foldl aggregate_metric agg ms). 0 \<le> t"
  using assms
proof (induction ms arbitrary: agg)
  case Nil
  then show ?case by simp
next
  case (Cons m ms)
  have "\<forall>(k, t) \<in> set (aggregate_metric agg m). 0 \<le> t"
    using Cons.prems by (intro nonneg_aggregate_metric) simp_all
  then show ?case using Cons.IH Cons.prems(1) by simp
qed

lemma those_Some_member:
  "those xs = Some ys \<Longrightarrow> y \<in> set ys \<Longrightarrow> Some y \<in> set xs"
proof (induction xs arbitrary: ys)
  case Nil
  then show ?case by simp
next
  case (Cons x xs)
  then show ?case by (auto split: option.splits)
qed

lemma nonneg_totalRows:
  assumes "list_all valid_event ms" and "totalRows ms = Some rows" and "r \<in> set rows"
  shows "0 \<le> total r"
proof -
  let ?agg = "foldl aggregate_metric [] ms"
  have "those (map (totalRow ?agg) (map fst ?agg)) = Some rows"
    using assms(2) by (simp only: totalRows_def Let_def)
  then have "Some r \<in> set (map (totalRow ?agg) (map fst ?agg))"
    using assms(3) by (rule those_Some_member)
  then obtain key where "totalRow ?agg key = Some r" by auto
  then obtain t where "map_of ?agg key = Some t" and "total r = t"
    by (auto simp: totalRow_def split: list.splits option.splits)
  then have "(key, total r) \<in> set ?agg" by (auto dest: map_of_SomeD)
  moreover have "\<forall>(k, t) \<in> set ?agg. 0 \<le> t"
    using assms(1) by (rule nonneg_aggregated) simp
  ultimately show ?thesis by auto
qed

lemma counters_grow_batchInsertMetrics:
  assumes "batch_write (BatchInsertMetrics metrics)"
  shows "counters_grow s (snd (batchInsertMetrics coll metrics s))"
proof (cases metrics)
  case None
  then show ?thesis by (simp add: batchInsertMetrics_def counters_grow_refl)
next
  case (Some ms)
  show ?thesis
  proof (cases "ms = []")
    case True
    then show ?thesis using Some by (simp add: batchInsertMetrics_def counters_grow_refl)
  next
    case False
    have valid: "list_all valid_event ms" using assms Some by simp
    have e: "\<forall>r \<in> set (sortedRows coll ms). 0 \<le> row_yes r \<and> 0 \<le> row_no r"
      using nonneg_sortedRows [OF valid] by blast
    have v: "\<forall>r \<in> set (sortedVariantRows coll ms). 0 \<le> row_count r"
      using nonneg_sortedVariantRows [OF valid] by blast
    show ?thesis
      using env_table_grows [OF e] variant_table_grows [OF v] total_grows_refl
      by (auto simp: Some batchInsertMetrics_nonempty [OF False] counters_grow_def)
  qed
qed

lemma counters_grow_raw_InsertTotal:
  assumes "\<forall>r \<in> set rows. 0 \<le> total r"
  shows "counters_grow s (snd (raw (InsertTotal rows) s))"
proof (cases "insert_on_conflict total_pk add_total rows (client_metrics_total s)")
  case (Inl e)
  then show ?thesis
    using env_grows_refl variant_grows_refl total_grows_refl
    by (auto simp: raw_def counters_grow_def)
next
  case (Inr t)
  then have "t = foldl (accumulate_row total_pk add_total) (client_metrics_total s) rows"
    by (simp add: insert_on_conflict_def split: if_splits)
  then show ?thesis
    using Inr total_table_grows [OF assms] env_grows_refl variant_grows_refl
    by (auto simp: raw_def counters_grow_def)
qed

lemma counters_grow_batchInsertTotalMetrics:
  assumes "batch_write (BatchInsertTotalMetrics metrics)"
  shows "counters_grow s (snd (batchInsertTotalMetrics coll metrics s))"
proof (cases metrics)
  case None
  then show ?thesis by (simp add: batchInsertTotalMetrics_def counters_grow_refl)
next
  case (Some ms)
  have valid: "list_all valid_event ms" using assms Some by simp
  show ?thesis
  proof (cases "totalRows ms")
    case None
    then show ?thesis using Some by (simp add: batchInsertTotalMetrics_def counters_grow_refl)
  next
    case rows: (Some rows)
    have "\<forall>r \<in> set (sortTotalRows coll rows). 0 \<le> total r"
      using nonneg_totalRows [OF valid rows] by (simp add: sortTotalRows_def)
    then have "counters_grow s (snd (raw (InsertTotal (sortTotalRows coll rows)) s))"
      by (rule counters_grow_raw_InsertTotal)
    then show ?thesis
      using Some rows by (simp add: batchInsertTotalMetrics_def counters_grow_refl)
  qed
qed

lemma counters_grow_perform:
  assumes "batch_write op"
  shows "counters_grow s (snd (perform coll op s))"
  using assms counters_grow_batchInsertMetrics counters_grow_batchInsertTotalMetrics
  by (cases op) simp_all

lemma counters_grow_run:
  "list_all batch_write ops \<Longrightarrow> counters_grow s (run coll ops s)"
proof (induction ops arbitrary: s)
  case Nil
  then show ?case by (simp add: run_def counters_grow_refl)
next
  case (Cons op ops)
  have a: "counters_grow s (snd (perform coll op s))"
    using Cons.prems by (simp add: counters_grow_perform)
  have b: "counters_grow (snd (perform coll op s)) (run coll ops (snd (perform coll op s)))"
    using Cons.IH Cons.prems by simp
  have "run coll (op # ops) s = run coll ops (snd (perform coll op s))"
    by (simp add: run_def)
  then show ?case
    using counters_grow_trans [OF a b] by simp
qed

text \<open>C3. Each writing operation of the store (\<open>batchInsertMetrics\<close>,
  \<open>batchInsertTotalMetrics\<close>, \<open>delete\<close>, \<open>deleteAll\<close>, \<open>clearMetrics\<close>), and so
  every sequence of them, keeps the invariant that each of the three tables holds at most
  one row per primary key, whether the operation succeeds or is refused. Across any
  sequence of batch writes of valid events no stored counter decreases: every row present
  before is present after at the same key, with yes, no, count and total at least as
  large.\<close>

theorem one_row_per_key_and_counters_grow:
  "(pk_invariant s \<longrightarrow> pk_invariant (snd (perform coll op s)) \<and> pk_invariant (run coll ops s)) \<and>
   (list_all batch_write ops \<longrightarrow> counters_grow s (run coll ops s))"
  using pk_invariant_perform pk_invariant_run counters_grow_run by blast

lemma run_writes:
  "run byte_order writes busy_store = busy_store\<lparr>
     client_metrics_env := [env_row ''f1'' ''a1'' ''prod'' 0 10 3],
     client_metrics_env_variants := [variant_row ''f1'' ''a1'' ''prod'' 0 ''A'' 4,
                                     variant_row ''f1'' ''a1'' ''prod'' 0 ''B'' 4],
     client_metrics_total := [total_row ''f1'' ''prod'' 13],
     issued := [InsertEnv [env_row ''f1'' ''a1'' ''prod'' 0 8 1],
                InsertVariants [variant_row ''f1'' ''a1'' ''prod'' 0 ''A'' 3,
                                variant_row ''f1'' ''a1'' ''prod'' 0 ''B'' 4],
                InsertTotal [total_row ''f1'' ''prod'' 9]]\<rparr>"
proof -
  have ne: "scenario \<noteq> []" by (simp add: scenario_def)
  have r: "sortedRows byte_order scenario = [env_row ''f1'' ''a1'' ''prod'' 0 8 1]"
    by (simp add: sortedRows_def sortRows_def collapseHourlyMetrics_def scenario_def event_def
      env_row_def accumulate_row_def add_metric_def metric_key_def toRow_def startOfHour_def
      msPerHour_def)
  have v: "sortedVariantRows byte_order scenario =
     [variant_row ''f1'' ''a1'' ''prod'' 0 ''A'' 3, variant_row ''f1'' ''a1'' ''prod'' 0 ''B'' 4]"
    by (simp add: sortedVariantRows_def sortVariantRows_def spreadVariants_def variantEntries_def
      scenario_def event_def variant_row_def accumulate_row_def add_count_def variant_key_def
      metric_key_def toVariantRow_def startOfHour_def msPerHour_def byte_order_def)
  have t: "totalRows scenario = Some [total_row ''f1'' ''prod'' 9]"
    by (simp add: totalRows_def aggregate_metric_def totalRow_def scenario_def event_def
        total_row_def)
  show ?thesis
    by (simp add: run_def writes_def batchInsertMetrics_nonempty [OF ne] r v t
        batchInsertTotalMetrics_def ne sortTotalRows_def raw_def insert_on_conflict_def
        accumulate_row_def add_env_def add_variant_def add_total_def env_pk_def variant_pk_def
        total_pk_def busy_store_def empty_store_def env_row_def variant_row_def total_row_def)
qed

theorem one_row_per_key_and_counters_grow_witness:
  "pk_invariant busy_store \<and> list_all batch_write writes \<and>
   pk_invariant (run byte_order writes busy_store) \<and>
   counters_grow busy_store (run byte_order writes busy_store) \<and>
   client_metrics_env (run byte_order writes busy_store) = [env_row ''f1'' ''a1'' ''prod'' 0 10 3] \<and>
   client_metrics_total (run byte_order writes busy_store) = [total_row ''f1'' ''prod'' 13]"
proof -
  have i: "pk_invariant busy_store"
    by (simp add: pk_invariant_def busy_store_def empty_store_def)
  have w: "list_all batch_write writes"
    by (simp add: writes_def scenario_def event_def valid_event_def)
  from one_row_per_key_and_counters_grow [of busy_store byte_order "BatchInsertMetrics None" writes] i w
  have "pk_invariant (run byte_order writes busy_store) \<and>
        counters_grow busy_store (run byte_order writes busy_store)"
    by blast
  then show ?thesis using i w by (simp add: run_writes)
qed

subsection \<open>The reducer of joined rows\<close>

lemma set_map_entry:
  "(k', v') \<in> set (AList.map_entry k f al) \<Longrightarrow>
   \<exists>v. (k', v) \<in> set al \<and> (v' = v \<or> v' = f v)"
  by (induction al) (auto split: if_splits)

lemma keys_map_entry: "fst ` set (AList.map_entry k f al) = fst ` set al"
  by (induction al) auto

lemma keys_AList_update: "fst ` set (AList.update k v al) = insert k (fst ` set al)"
  by (induction al) auto

lemma object_fields_variants [simp]: "object_fields (obj\<lparr>variants := vs\<rparr>) = object_fields obj"
  by (simp add: object_fields_def)

lemma reducer_keys:
  "fst ` set (variantRowReducer dts nts acc j) = insert (reducer_key dts nts j) (fst ` set acc)"
proof -
  have "map_of acc (reducer_key dts nts j) \<noteq> None \<Longrightarrow> reducer_key dts nts j \<in> fst ` set acc"
    by (simp add: map_of_eq_None_iff)
  then show ?thesis
    by (auto simp: variantRowReducer_def Let_def keys_map_entry
        keys_AList_update split: option.splits)
qed

lemma reducer_objects:
  assumes "(k, obj) \<in> set (variantRowReducer dts nts acc j)"
  shows "(\<exists>obj'. (k, obj') \<in> set acc \<and> object_fields obj = object_fields obj') \<or>
         (k = reducer_key dts nts j \<and> object_fields obj = row_fields j)"
proof -
  let ?key = "reducer_key dts nts j"
  let ?new = "\<lparr>featureName = feature_name j, appName = app_name j,
                environment = row_environment j, timestamp = row_timestamp j,
                yes = row_yes j, no = row_no j, variants = Some []\<rparr>"
  let ?acc1 = "if map_of acc ?key = None then AList.update ?key ?new acc else acc"
  have acc1: "(\<exists>obj'. (k', o') \<in> set acc \<and> object_fields o' = object_fields obj') \<or>
              (k' = ?key \<and> object_fields o' = row_fields j)"
    if "(k', o') \<in> set ?acc1" for k' o'
  proof (cases "map_of acc ?key = None")
    case True
    then have "(k', o') \<in> insert (?key, ?new) (set acc)"
      using that set_AList_update [of ?key ?new acc] by auto
    then show ?thesis by (auto simp: object_fields_def row_fields_def)
  next
    case False
    then show ?thesis using that by auto
  qed
  have "\<exists>o'. (k, o') \<in> set ?acc1 \<and> object_fields obj = object_fields o'"
    using assms
    by (auto simp: variantRowReducer_def Let_def
        split: option.splits if_splits dest!: set_map_entry)
  then obtain o' where "(k, o') \<in> set ?acc1" and "object_fields obj = object_fields o'"
    by blast
  then show ?thesis using acc1 [of k o'] by auto
qed

lemma reducer_fold_keys:
  "fst ` set (foldl (variantRowReducer dts nts) acc rows) =
   fst ` set acc \<union> reducer_key dts nts ` set rows"
  by (induction rows arbitrary: acc) (auto simp: reducer_keys)

lemma reducer_fold_objects:
  assumes "(k, obj) \<in> set (foldl (variantRowReducer dts nts) acc rows)"
  shows "(\<exists>obj'. (k, obj') \<in> set acc \<and> object_fields obj = object_fields obj') \<or>
         (\<exists>j \<in> set rows. k = reducer_key dts nts j \<and> object_fields obj = row_fields j)"
  using assms
proof (induction rows arbitrary: acc)
  case Nil
  then show ?case by auto
next
  case (Cons j rows)
  from Cons.IH [of "variantRowReducer dts nts acc j"] Cons.prems
  consider obj' where "(k, obj') \<in> set (variantRowReducer dts nts acc j)"
      "object_fields obj = object_fields obj'"
    | j' where "j' \<in> set rows" "k = reducer_key dts nts j'" "object_fields obj = row_fields j'"
    by auto
  then show ?case
  proof cases
    case 1
    then show ?thesis using reducer_objects [OF 1(1)] by auto
  next
    case 2
    then show ?thesis by auto
  qed
qed

subsection \<open>Windowed reads\<close>

lemma leftJoinVariants_fields:
  "j \<in> set (leftJoinVariants vtbl r) \<Longrightarrow> row_fields j = row_fields r"
  by (auto simp: leftJoinVariants_def row_fields_def split: list.splits)

lemma leftJoinVariants_nonempty: "leftJoinVariants vtbl r \<noteq> []"
  by (simp add: leftJoinVariants_def split: list.splits)

lemma row_fields_components:
  "row_fields j = row_fields r \<Longrightarrow>
     feature_name j = feature_name r \<and> app_name j = app_name r \<and>
     row_environment j = row_environment r \<and> row_timestamp j = row_timestamp r \<and>
     row_yes j = row_yes r \<and> row_no j = row_no r"
  by (simp add: row_fields_def)

lemma reducer_key_fields:
  "row_fields j = row_fields r \<Longrightarrow> reducer_key dts nts j = reducer_key dts nts r"
  by (simp add: reducer_key_def row_fields_def)

lemma featureToggleRows_member:
  "j \<in> set (featureToggleRows now s f h) \<longleftrightarrow>
     feature_name j = f \<and> now - h * msPerHour \<le> row_timestamp j \<and>
     (\<exists>r \<in> set (client_metrics_env s). j \<in> set (leftJoinVariants (client_metrics_env_variants s) r))"
  by (auto simp: featureToggleRows_def)

lemma featureToggleRows_source:
  assumes "j \<in> set (featureToggleRows now s f h)"
  shows "\<exists>r \<in> set (client_metrics_env s). row_fields j = row_fields r"
  using assms leftJoinVariants_fields by (auto simp: featureToggleRows_member)

lemma featureToggleRows_includes:
  assumes "r \<in> set (client_metrics_env s)" and "now - h * msPerHour \<le> row_timestamp r"
  shows "\<exists>j \<in> set (featureToggleRows now s (feature_name r) h). row_fields j = row_fields r"
proof -
  obtain j where j: "j \<in> set (leftJoinVariants (client_metrics_env_variants s) r)"
    using leftJoinVariants_nonempty [of "client_metrics_env_variants s" r]
    by (cases "leftJoinVariants (client_metrics_env_variants s) r") auto
  have f: "row_fields j = row_fields r" using j by (rule leftJoinVariants_fields)
  then have "j \<in> set (featureToggleRows now s (feature_name r) h)"
    using assms j row_fields_components [OF f] by (auto simp: featureToggleRows_member)
  then show ?thesis using f by blast
qed

lemma getMetricsForFeatureToggle_source:
  assumes "obj \<in> set (getMetricsForFeatureToggle dts nts now s f h)"
  shows "\<exists>j \<in> set (featureToggleRows now s f h). object_fields obj = row_fields j"
proof -
  from assms obtain k where
    "(k, obj) \<in> set (foldl (variantRowReducer dts nts) [] (featureToggleRows now s f h))"
    by (auto simp: getMetricsForFeatureToggle_def)
  from reducer_fold_objects [OF this] show ?thesis by auto
qed

lemma getMetricsForFeatureToggle_includes:
  assumes sep: "keys_separate dts nts s"
    and r: "r \<in> set (client_metrics_env s)" and w: "now - h * msPerHour \<le> row_timestamp r"
  shows "\<exists>obj \<in> set (getMetricsForFeatureToggle dts nts now s (feature_name r) h).
           object_fields obj = row_fields r"
proof -
  let ?rows = "featureToggleRows now s (feature_name r) h"
  let ?acc = "foldl (variantRowReducer dts nts) [] ?rows"
  from featureToggleRows_includes [OF r w]
  obtain j where j: "j \<in> set ?rows" and jr: "row_fields j = row_fields r" by blast
  have "reducer_key dts nts j \<in> fst ` set ?acc"
    using j by (simp add: reducer_fold_keys)
  then obtain obj where obj: "(reducer_key dts nts j, obj) \<in> set ?acc" by auto
  from reducer_fold_objects [OF obj]
  obtain j' where j': "j' \<in> set ?rows" and k: "reducer_key dts nts j = reducer_key dts nts j'"
    and o: "object_fields obj = row_fields j'"
    by auto
  from featureToggleRows_source [OF j']
  obtain r' where r': "r' \<in> set (client_metrics_env s)" and jr': "row_fields j' = row_fields r'"
    by blast
  have "reducer_key dts nts r = reducer_key dts nts j"
    by (rule reducer_key_fields [OF jr, symmetric])
  also have "\<dots> = reducer_key dts nts j'" by (rule k)
  also have "\<dots> = reducer_key dts nts r'" by (rule reducer_key_fields [OF jr'])
  finally have "reducer_key dts nts r = reducer_key dts nts r'" .
  moreover have "\<forall>r1 \<in> set (client_metrics_env s). \<forall>r2 \<in> set (client_metrics_env s).
        reducer_key dts nts r1 = reducer_key dts nts r2 \<longrightarrow> row_fields r1 = row_fields r2"
    using sep by (simp only: keys_separate_def)
  ultimately have "row_fields r = row_fields r'"
    using r r' by blast
  then have "object_fields obj = row_fields r" using o jr' by (simp only:)
  moreover have "obj \<in> set (getMetricsForFeatureToggle dts nts now s (feature_name r) h)"
    using obj by (force simp: getMetricsForFeatureToggle_def)
  ultimately show ?thesis by blast
qed

lemma seen_apps_member:
  "a \<in> set (getSeenAppsForFeatureToggle dbcoll now s f h) \<longleftrightarrow>
     (\<exists>r \<in> set (client_metrics_env s).
        feature_name r = f \<and> app_name r = a \<and> now - h * msPerHour \<le> row_timestamp r)"
  by (auto simp: getSeenAppsForFeatureToggle_def)

lemma seen_toggles_member:
  "f \<in> set (getSeenTogglesForApp dbcoll now s a h) \<longleftrightarrow>
     (\<exists>r \<in> set (client_metrics_env s).
        app_name r = a \<and> feature_name r = f \<and> now - h * msPerHour \<le> row_timestamp r)"
  by (auto simp: getSeenTogglesForApp_def)

lemma filter_removeAll_irrelevant: "\<not> P x \<Longrightarrow> filter P (removeAll x xs) = filter P xs"
  by (induction xs) auto

text \<open>What the comparison \<open>timestamp >= NOW() - INTERVAL\<close> of the three reads gives.
  With \<open>cutoff\<close> = \<open>now\<close> minus \<open>hoursBack\<close> hours: for a record \<open>r\<close> of the
  hourly table whose timestamp is exactly \<open>cutoff\<close>, its application is among the seen
  applications of its feature, its feature among the seen toggles of its application, it is
  among the rows the query of \<open>getMetricsForFeatureToggle\<close> selects, and the result
  has an object with its fields whenever the reducer's string keys tell the rows of the
  table apart. For a record \<open>r2\<close> one second older than \<open>cutoff\<close>, the seen lists
  are the same with or without it, and no selected row and no object of the result has its
  timestamp.\<close>

lemma windowed_read_boundary:
  "(r \<in> set (client_metrics_env s) \<and> row_timestamp r = now - hoursBack * msPerHour \<longrightarrow>
      app_name r \<in> set (getSeenAppsForFeatureToggle dbcoll now s (feature_name r) hoursBack) \<and>
      feature_name r \<in> set (getSeenTogglesForApp dbcoll now s (app_name r) hoursBack) \<and>
      (\<exists>j \<in> set (featureToggleRows now s (feature_name r) hoursBack).
         row_fields j = row_fields r) \<and>
      (keys_separate dts nts s \<longrightarrow>
         (\<exists>obj \<in> set (getMetricsForFeatureToggle dts nts now s (feature_name r) hoursBack).
            object_fields obj = row_fields r))) \<and>
   (row_timestamp r2 = now - hoursBack * msPerHour - 1000 \<longrightarrow>
      getSeenAppsForFeatureToggle dbcoll now
        (s\<lparr>client_metrics_env := removeAll r2 (client_metrics_env s)\<rparr>) f hoursBack =
        getSeenAppsForFeatureToggle dbcoll now s f hoursBack \<and>
      getSeenTogglesForApp dbcoll now
        (s\<lparr>client_metrics_env := removeAll r2 (client_metrics_env s)\<rparr>) a hoursBack =
        getSeenTogglesForApp dbcoll now s a hoursBack \<and>
      (\<forall>j \<in> set (featureToggleRows now s f hoursBack). row_timestamp j \<noteq> row_timestamp r2) \<and>
      (\<forall>obj \<in> set (getMetricsForFeatureToggle dts nts now s f hoursBack).
         timestamp obj \<noteq> row_timestamp r2))"
proof (intro conjI impI)
  assume b: "r \<in> set (client_metrics_env s) \<and> row_timestamp r = now - hoursBack * msPerHour"
  then have r: "r \<in> set (client_metrics_env s)"
    and w: "now - hoursBack * msPerHour \<le> row_timestamp r"
    by simp_all
  show "app_name r \<in> set (getSeenAppsForFeatureToggle dbcoll now s (feature_name r) hoursBack)"
    using r w by (auto simp: seen_apps_member)
  show "feature_name r \<in> set (getSeenTogglesForApp dbcoll now s (app_name r) hoursBack)"
    using r w by (auto simp: seen_toggles_member)
  show "\<exists>j \<in> set (featureToggleRows now s (feature_name r) hoursBack). row_fields j = row_fields r"
    using r w by (rule featureToggleRows_includes)
  show "\<exists>obj \<in> set (getMetricsForFeatureToggle dts nts now s (feature_name r) hoursBack).
            object_fields obj = row_fields r"
    if "keys_separate dts nts s"
    using that r w by (rule getMetricsForFeatureToggle_includes)
next
  assume o: "row_timestamp r2 = now - hoursBack * msPerHour - 1000"
  then have out: "\<not> now - hoursBack * msPerHour \<le> row_timestamp r2" by simp
  show "getSeenAppsForFeatureToggle dbcoll now
        (s\<lparr>client_metrics_env := removeAll r2 (client_metrics_env s)\<rparr>) f hoursBack =
        getSeenAppsForFeatureToggle dbcoll now s f hoursBack"
    using out by (simp add: getSeenAppsForFeatureToggle_def filter_removeAll_irrelevant)
  show "getSeenTogglesForApp dbcoll now
        (s\<lparr>client_metrics_env := removeAll r2 (client_metrics_env s)\<rparr>) a hoursBack =
        getSeenTogglesForApp dbcoll now s a hoursBack"
    using out by (simp add: getSeenTogglesForApp_def filter_removeAll_irrelevant)
  show rows: "\<forall>j \<in> set (featureToggleRows now s f hoursBack). row_timestamp j \<noteq> row_timestamp r2"
    using out by (auto simp: featureToggleRows_member)
  show "\<forall>obj \<in> set (getMetricsForFeatureToggle dts nts now s f hoursBack).
         timestamp obj \<noteq> row_timestamp r2"
  proof
    fix obj assume "obj \<in> set (getMetricsForFeatureToggle dts nts now s f hoursBack)"
    from getMetricsForFeatureToggle_source [OF this]
    obtain j where "j \<in> set (featureToggleRows now s f hoursBack)"
      and "object_fields obj = row_fields j" by blast
    then show "timestamp obj \<noteq> row_timestamp r2"
      using rows by (auto simp: object_fields_def row_fields_def)
  qed
qed

lemma windowed_read_boundary_window_store:
  "env_row ''f'' ''a'' ''e'' 0 2 0 \<in> set (client_metrics_env window_store) \<and>
   row_timestamp (env_row ''f'' ''a'' ''e'' 0 2 0) = 86400000 - 24 * msPerHour \<and>
   keys_separate no_text no_text window_store \<and>
   row_timestamp (env_row ''f'' ''old'' ''e'' (- 1000) 1 0) = 86400000 - 24 * msPerHour - 1000 \<and>
   getSeenAppsForFeatureToggle byte_order 86400000 window_store ''f'' 24 = [''a''] \<and>
   getSeenTogglesForApp byte_order 86400000 window_store ''a'' 24 = [''f''] \<and>
   getMetricsForFeatureToggle no_text no_text 86400000 window_store ''f'' 24 =
     [event ''f'' ''a'' ''e'' 0 2 0 (Some [])] \<and>
   (\<exists>obj \<in> set (getMetricsForFeatureToggle no_text no_text 86400000 window_store ''f'' 24).
      object_fields obj = row_fields (env_row ''f'' ''a'' ''e'' 0 2 0)) \<and>
   \<not> (\<exists>obj \<in> set (getMetricsForFeatureToggle no_text no_text 86400000 window_store ''f'' 24).
      timestamp obj = row_timestamp (env_row ''f'' ''old'' ''e'' (- 1000) 1 0))"
proof -
  let ?r = "env_row ''f'' ''a'' ''e'' 0 2 0" and ?r2 = "env_row ''f'' ''old'' ''e'' (- 1000) 1 0"
  have h1: "?r \<in> set (client_metrics_env window_store) \<and>
            row_timestamp ?r = 86400000 - 24 * msPerHour"
    by (simp add: window_store_def empty_store_def env_row_def msPerHour_def)
  have h2: "keys_separate no_text no_text window_store"
    by (simp add: keys_separate_def window_store_def empty_store_def env_row_def
        reducer_key_def no_text_def)
  have h3: "row_timestamp ?r2 = 86400000 - 24 * msPerHour - 1000"
    by (simp add: env_row_def msPerHour_def)
  have e1: "getSeenAppsForFeatureToggle byte_order 86400000 window_store ''f'' 24 = [''a'']"
    by (simp add: getSeenAppsForFeatureToggle_def window_store_def empty_store_def env_row_def
        msPerHour_def)
  have e2: "getSeenTogglesForApp byte_order 86400000 window_store ''a'' 24 = [''f'']"
    by (simp add: getSeenTogglesForApp_def window_store_def empty_store_def env_row_def
        msPerHour_def)
  have e3: "getMetricsForFeatureToggle no_text no_text 86400000 window_store ''f'' 24 =
     [event ''f'' ''a'' ''e'' 0 2 0 (Some [])]"
    by (simp add: getMetricsForFeatureToggle_def featureToggleRows_def leftJoinVariants_def
        variantRowReducer_def reducer_key_def window_store_def empty_store_def env_row_def
        event_def msPerHour_def no_text_def)
  from windowed_read_boundary [of ?r window_store 86400000 24 byte_order no_text no_text ?r2 "''f''" "''a''"]
    h1 h2 h3
  have "(\<exists>obj \<in> set (getMetricsForFeatureToggle no_text no_text 86400000 window_store (feature_name ?r) 24).
      object_fields obj = row_fields ?r) \<and>
   \<not> (\<exists>obj \<in> set (getMetricsForFeatureToggle no_text no_text 86400000 window_store ''f'' 24).
      timestamp obj = row_timestamp ?r2)"
    by blast
  moreover have "feature_name ?r = ''f''" by (simp add: env_row_def)
  ultimately show ?thesis using h1 h2 h3 e1 e2 e3 by simp
qed

text \<open>C8 asks that a record whose timestamp is exactly \<open>hoursBack\<close> hours old is
  included in the result of the windowed reads, \<open>getMetricsForFeatureToggle\<close> among
  them. Read 24 h after the epoch with a window of 24 h, both rows of
  \<open>colliding_store\<close> are exactly 24 h old and pass the comparison of the query. The
  reducer gives them the same string key, whatever the texts of dates and numbers are, and
  the row of application \<open>a\<close> in environment \<open>b_c\<close> is merged into the object of the
  other row: no object of the result has its fields.\<close>

theorem boundary_record_merged_away:
  "distinct (map env_pk (client_metrics_env colliding_store)) \<and>
   env_row ''f'' ''a'' ''b_c'' 0 1 0 \<in> set (client_metrics_env colliding_store) \<and>
   row_timestamp (env_row ''f'' ''a'' ''b_c'' 0 1 0) = 86400000 - 24 * msPerHour \<and>
   getMetricsForFeatureToggle dateToString numToString 86400000 colliding_store ''f'' 24 =
     [event ''f'' ''a_b'' ''c'' 0 1 0 (Some [(''A'', 2), (''B'', 3)])] \<and>
   \<not> (\<exists>obj \<in> set (getMetricsForFeatureToggle dateToString numToString 86400000
                      colliding_store ''f'' 24).
        object_fields obj = row_fields (env_row ''f'' ''a'' ''b_c'' 0 1 0))"
  by (simp add: getMetricsForFeatureToggle_def featureToggleRows_def leftJoinVariants_def
      variantRowReducer_def reducer_key_def colliding_store_def empty_store_def env_row_def
      variant_row_def event_def env_pk_def msPerHour_def object_fields_def row_fields_def)

subsection \<open>The effect of an accepted insert\<close>

lemma untouched_accumulate_row:
  "x \<in> set tbl \<Longrightarrow> pk x \<noteq> pk r \<Longrightarrow> x \<in> set (accumulate_row pk add tbl r)"
  by (auto simp: accumulate_row_def)

lemma untouched_foldl_accumulate:
  "x \<in> set tbl \<Longrightarrow> pk x \<notin> set (map pk rows) \<Longrightarrow>
   x \<in> set (foldl (accumulate_row pk add) tbl rows)"
proof (induction rows arbitrary: tbl)
  case Nil
  then show ?case by simp
next
  case (Cons r rows)
  then have "x \<in> set (accumulate_row pk add tbl r)"
    by (intro untouched_accumulate_row) auto
  then show ?case using Cons by simp
qed

lemma inserted_foldl_accumulate:
  assumes kp: "\<forall>x r. pk (add x r) = pk x"
  shows "distinct (map pk rows) \<Longrightarrow> r \<in> set rows \<Longrightarrow> pk r \<notin> set (map pk tbl) \<Longrightarrow>
         r \<in> set (foldl (accumulate_row pk add) tbl rows)"
proof (induction rows arbitrary: tbl)
  case Nil
  then show ?case by simp
next
  case (Cons r0 rows)
  show ?case
  proof (cases "r = r0")
    case True
    have "r0 \<in> set (accumulate_row pk add tbl r0)"
      using Cons.prems(3) True by (simp add: accumulate_row_def)
    moreover have "pk r0 \<notin> set (map pk rows)" using Cons.prems(1) by simp
    ultimately show ?thesis
      using True untouched_foldl_accumulate [of r0 "accumulate_row pk add tbl r0" pk rows add]
      by simp
  next
    case False
    then have r: "r \<in> set rows" using Cons.prems(2) by simp
    then have "pk r \<in> pk ` set rows" by (rule imageI)
    then have "pk r \<noteq> pk r0" using Cons.prems(1) by auto
    then have "pk r \<notin> set (map pk (accumulate_row pk add tbl r0))"
      using Cons.prems(3) by (simp add: keys_accumulate_row [OF kp])
    then show ?thesis
      using Cons.IH [OF _ r] Cons.prems(1) by simp
  qed
qed

lemma accumulated_foldl_accumulate:
  assumes kp: "\<forall>x r. pk (add x r) = pk x"
  shows "distinct (map pk rows) \<Longrightarrow> r \<in> set rows \<Longrightarrow> x \<in> set tbl \<Longrightarrow> pk x = pk r \<Longrightarrow>
         add x r \<in> set (foldl (accumulate_row pk add) tbl rows)"
proof (induction rows arbitrary: tbl)
  case Nil
  then show ?case by simp
next
  case (Cons r0 rows)
  show ?case
  proof (cases "r = r0")
    case True
    have "pk x \<in> pk ` set tbl"
      using Cons.prems(3) by (rule imageI)
    then have "pk r0 \<in> pk ` set tbl"
      using Cons.prems(4) True by simp
    moreover have "add x r0 \<in> (\<lambda>y. if pk y = pk r0 then add y r0 else y) ` set tbl"
    proof (rule image_eqI [where x = x])
      show "add x r0 = (if pk x = pk r0 then add x r0 else x)"
        using Cons.prems(4) True by simp
      show "x \<in> set tbl" by (rule Cons.prems(3))
    qed
    ultimately have "add x r0 \<in> set (accumulate_row pk add tbl r0)"
      by (simp add: accumulate_row_def)
    moreover have "pk (add x r0) \<notin> set (map pk rows)"
      using Cons.prems(1,4) True kp by simp
    ultimately show ?thesis
      using True untouched_foldl_accumulate [of "add x r0" "accumulate_row pk add tbl r0" pk rows add]
      by simp
  next
    case False
    then have r: "r \<in> set rows" using Cons.prems(2) by simp
    then have "pk r \<in> pk ` set rows" by (rule imageI)
    then have "pk r \<noteq> pk r0" using Cons.prems(1) by auto
    then have "x \<in> set (accumulate_row pk add tbl r0)"
      using Cons.prems(3,4) by (intro untouched_accumulate_row) simp_all
    then show ?thesis
      using Cons.IH [OF _ r _ Cons.prems(4)] Cons.prems(1) by simp
  qed
qed

text \<open>An accepted \<open>INSERT ... ON CONFLICT DO UPDATE\<close> inserts each proposed row whose
  key is new, replaces each stored row whose key is proposed by its sum with the proposed
  row, leaves every other stored row as it is, and keeps one row per key.\<close>

lemma insert_on_conflict_effect:
  assumes kp: "\<forall>x r. pk (add x r) = pk x" and d: "distinct (map pk tbl)"
    and ok: "insert_on_conflict pk add rows tbl = Inr tbl'"
  shows "(\<forall>r \<in> set rows. (pk r \<notin> set (map pk tbl) \<longrightarrow> r \<in> set tbl') \<and>
            (\<forall>x \<in> set tbl. pk x = pk r \<longrightarrow> add x r \<in> set tbl')) \<and>
         (\<forall>x \<in> set tbl. pk x \<notin> set (map pk rows) \<longrightarrow> x \<in> set tbl') \<and>
         distinct (map pk tbl') \<and>
         set (map pk tbl') = set (map pk tbl) \<union> set (map pk rows)"
proof -
  from ok have rows: "distinct (map pk rows)"
    and t: "tbl' = foldl (accumulate_row pk add) tbl rows"
    by (simp_all add: insert_on_conflict_def split: if_splits)
  have a: "r \<in> set tbl'" if "r \<in> set rows" "pk r \<notin> set (map pk tbl)" for r
    unfolding t using that by (rule inserted_foldl_accumulate [OF kp rows])
  have b: "add x r \<in> set tbl'" if "r \<in> set rows" "x \<in> set tbl" "pk x = pk r" for r x
    unfolding t using that by (rule accumulated_foldl_accumulate [OF kp rows])
  have c: "x \<in> set tbl'" if "x \<in> set tbl" "pk x \<notin> set (map pk rows)" for x
    unfolding t using that by (rule untouched_foldl_accumulate)
  have e: "distinct (map pk tbl')"
    unfolding t by (rule distinct_foldl_accumulate [OF kp d])
  have f: "set (map pk tbl') = set (map pk tbl) \<union> set (map pk rows)"
    unfolding t by (rule keys_foldl_accumulate [OF kp])
  show ?thesis
    using a b c e f by blast
qed

text \<open>Inserting rows with new, pairwise different keys appends them; inserting the rows of
  a table into that table again adds each row to itself.\<close>

lemma foldl_accumulate_fresh:
  "distinct (map pk rows) \<Longrightarrow> set (map pk rows) \<inter> set (map pk tbl) = {} \<Longrightarrow>
   foldl (accumulate_row pk add) tbl rows = tbl @ rows"
proof (induction rows arbitrary: tbl)
  case Nil
  then show ?case by simp
next
  case (Cons r rows)
  have "accumulate_row pk add tbl r = tbl @ [r]"
    using Cons.prems(2) by (simp add: accumulate_row_def)
  moreover have "set (map pk rows) \<inter> set (map pk (tbl @ [r])) = {}"
    using Cons.prems by auto
  ultimately show ?case using Cons.IH [of "tbl @ [r]"] Cons.prems(1) by simp
qed

lemma map_update_other:
  "pk r \<notin> set (map pk xs) \<Longrightarrow> map (\<lambda>x. if pk x = pk r then add x r else x) xs = xs"
  by (induction xs) auto

lemma foldl_accumulate_again:
  assumes kp: "\<forall>x r. pk (add x r) = pk x"
  shows "distinct (map pk rows) \<Longrightarrow> set (map pk pre) \<inter> set (map pk rows) = {} \<Longrightarrow>
   foldl (accumulate_row pk add) (pre @ rows) rows = pre @ map (\<lambda>r. add r r) rows"
proof (induction rows arbitrary: pre)
  case Nil
  then show ?case by simp
next
  case (Cons r rows)
  have a: "pk r \<notin> set (map pk pre)" and b: "pk r \<notin> set (map pk rows)"
    using Cons.prems by auto
  have "accumulate_row pk add (pre @ r # rows) r = (pre @ [add r r]) @ rows"
    using map_update_other [OF a, of add] map_update_other [OF b, of add]
    by (simp add: accumulate_row_def)
  moreover have "set (map pk (pre @ [add r r])) \<inter> set (map pk rows) = {}"
    using Cons.prems kp by auto
  ultimately show ?case
    using Cons.IH [of "pre @ [add r r]"] Cons.prems(1) by simp
qed

text \<open>Inserting one non-empty batch twice into empty tables: the rows of the first insert,
  each with its counters doubled.\<close>

lemma batchInsertMetrics_twice:
  assumes "ms \<noteq> []"
  shows "client_metrics_env
           (snd (batchInsertMetrics coll (Some ms)
              (snd (batchInsertMetrics coll (Some ms) empty_store)))) =
         map (\<lambda>r. add_env r r)
           (client_metrics_env (snd (batchInsertMetrics coll (Some ms) empty_store)))"
    and "client_metrics_env_variants
           (snd (batchInsertMetrics coll (Some ms)
              (snd (batchInsertMetrics coll (Some ms) empty_store)))) =
         map (\<lambda>r. add_variant r r)
           (client_metrics_env_variants (snd (batchInsertMetrics coll (Some ms) empty_store)))"
proof -
  have e1: "foldl (accumulate_row env_pk add_env) [] (sortedRows coll ms) = sortedRows coll ms"
    using foldl_accumulate_fresh [of env_pk "sortedRows coll ms" "[]" add_env]
      distinct_sortedRows [of coll ms] by simp
  have e2: "foldl (accumulate_row env_pk add_env) (sortedRows coll ms) (sortedRows coll ms) =
            map (\<lambda>r. add_env r r) (sortedRows coll ms)"
    using foldl_accumulate_again [OF env_pk_add_env, of "sortedRows coll ms" "[]"]
      distinct_sortedRows [of coll ms] by simp
  have v1: "foldl (accumulate_row variant_pk add_variant) [] (sortedVariantRows coll ms) =
            sortedVariantRows coll ms"
    using foldl_accumulate_fresh [of variant_pk "sortedVariantRows coll ms" "[]" add_variant]
      distinct_sortedVariantRows [of coll ms] by simp
  have v2: "foldl (accumulate_row variant_pk add_variant) (sortedVariantRows coll ms)
              (sortedVariantRows coll ms) =
            map (\<lambda>r. add_variant r r) (sortedVariantRows coll ms)"
    using foldl_accumulate_again [OF variant_pk_add_variant, of "sortedVariantRows coll ms" "[]"]
      distinct_sortedVariantRows [of coll ms] by simp
  show "client_metrics_env
           (snd (batchInsertMetrics coll (Some ms)
              (snd (batchInsertMetrics coll (Some ms) empty_store)))) =
         map (\<lambda>r. add_env r r)
           (client_metrics_env (snd (batchInsertMetrics coll (Some ms) empty_store)))"
    by (simp add: batchInsertMetrics_nonempty [OF assms] empty_store_def e1 e2)
  show "client_metrics_env_variants
           (snd (batchInsertMetrics coll (Some ms)
              (snd (batchInsertMetrics coll (Some ms) empty_store)))) =
         map (\<lambda>r. add_variant r r)
           (client_metrics_env_variants (snd (batchInsertMetrics coll (Some ms) empty_store)))"
    by (simp add: batchInsertMetrics_nonempty [OF assms] empty_store_def v1 v2)
qed

subsection \<open>Keys joined with underscores\<close>

lemma split_underscore_nonempty: "split_underscore str \<noteq> []"
  by (induction str) (auto split: list.splits)

lemma split_underscore_plain: "CHR ''_'' \<notin> set str \<Longrightarrow> split_underscore str = [str]"
  by (induction str) auto

lemma split_underscore_join:
  "CHR ''_'' \<notin> set f \<Longrightarrow> split_underscore (f @ CHR ''_'' # e) = f # split_underscore e"
  by (induction f) auto

lemma split_underscore_two: "2 \<le> length (split_underscore (f @ CHR ''_'' # e))"
proof (induction f)
  case Nil
  then show ?case using split_underscore_nonempty [of e] by (cases "split_underscore e") auto
next
  case (Cons c f)
  then show ?case by (auto split: list.splits)
qed

text \<open>The round trip through the joined key gives back the pair when neither name
  contains an underscore.\<close>

lemma split_underscore_round_trip:
  "CHR ''_'' \<notin> set f \<Longrightarrow> CHR ''_'' \<notin> set e \<Longrightarrow> split_underscore (f @ ''_'' @ e) = [f, e]"
  by (simp add: split_underscore_join split_underscore_plain)

text \<open>Every key of the aggregation contains an underscore, so every key has a row: the
  failing branch of \<open>totalRows\<close> is never taken.\<close>

lemma keys_aggregate_metric:
  "fst ` set (aggregate_metric agg m) =
   insert (featureName m @ ''_'' @ environment m) (fst ` set agg)"
  by (simp add: aggregate_metric_def Let_def keys_AList_update split: option.splits)

lemma keys_aggregated:
  "fst ` set (foldl aggregate_metric agg ms) =
   fst ` set agg \<union> (\<lambda>m. featureName m @ ''_'' @ environment m) ` set ms"
  by (induction ms arbitrary: agg) (auto simp: keys_aggregate_metric)

lemma those_defined: "(\<forall>x \<in> set xs. x \<noteq> None) \<Longrightarrow> those xs \<noteq> None"
  by (induction xs) auto

lemma totalRows_defined: "totalRows ms \<noteq> None"
proof -
  let ?agg = "foldl aggregate_metric [] ms"
  have "totalRow ?agg key \<noteq> None" if "key \<in> fst ` set ?agg" for key
  proof -
    from that obtain m :: IClientMetricsEnv
      where key: "key = featureName m @ CHR ''_'' # environment m"
      by (auto simp: keys_aggregated)
    have "2 \<le> length (split_underscore key)"
      unfolding key by (rule split_underscore_two)
    then obtain a b rest where "split_underscore key = a # b # rest"
      by (cases "split_underscore key"; cases "tl (split_underscore key)") auto
    moreover have "map_of ?agg key \<noteq> None"
      using that by (simp only: map_of_eq_None_iff not_not)
    then obtain t where "map_of ?agg key = Some t"
      by blast
    ultimately show ?thesis by (simp add: totalRow_def)
  qed
  then have "\<forall>x \<in> set (map (totalRow ?agg) (map fst ?agg)). x \<noteq> None"
    by auto
  then have "those (map (totalRow ?agg) (map fst ?agg)) \<noteq> None"
    by (rule those_defined)
  then show ?thesis unfolding totalRows_def Let_def .
qed

text \<open>C2 asks that the sum of a (featureName, environment) pair reaches the total record
  keyed by exactly that pair, also for names that contain an underscore. For the feature
  \<open>new_ui\<close> in the environment \<open>prod\<close> the key \<open>new_ui_prod\<close> is split into
  \<open>new\<close>, \<open>ui\<close> and \<open>prod\<close>, and the sum 4 is written to the record of feature
  \<open>new\<close> in environment \<open>ui\<close>.\<close>

theorem total_underscore_feature_name:
  "batchInsertTotalMetrics coll (Some [event ''new_ui'' ''web'' ''prod'' 0 3 1 None]) empty_store =
     (None, empty_store\<lparr>client_metrics_total := [total_row ''new'' ''ui'' 4],
        issued := [InsertTotal [total_row ''new'' ''ui'' 4]]\<rparr>)"
  by (simp add: batchInsertTotalMetrics_def totalRows_def aggregate_metric_def totalRow_def
      sortTotalRows_def raw_def insert_on_conflict_def accumulate_row_def event_def
      empty_store_def total_row_def)

text \<open>C1 asks that every valid non-empty batch is inserted or accumulated row by row.
  Two events of the feature \<open>new_ui\<close>, one in \<open>dev\<close> and one in \<open>prod\<close>, make
  \<open>batchInsertTotalMetrics\<close> submit two rows that both have the key (\<open>new\<close>,
  \<open>ui\<close>); the statement is refused and neither row reaches the table.\<close>

theorem total_underscore_batch_refused:
  "batchInsertTotalMetrics coll
     (Some [event ''new_ui'' ''web'' ''dev'' 0 1 0 None, event ''new_ui'' ''web'' ''prod'' 0 1 0 None])
     empty_store =
     (Some CardinalityViolation,
      empty_store\<lparr>issued := [InsertTotal [total_row ''new'' ''ui'' 1, total_row ''new'' ''ui'' 1]]\<rparr>)"
  by (simp add: batchInsertTotalMetrics_def totalRows_def aggregate_metric_def totalRow_def
      sortTotalRows_def raw_def insert_on_conflict_def accumulate_row_def event_def
      empty_store_def total_row_def total_pk_def)

text \<open>C6 asks for one object per (feature, app, environment, hour) and that different
  tuples are never merged, also for names that contain an underscore. The two rows of
  \<open>colliding_store\<close> have different primary keys and the same reducer key, whatever
  the texts of dates and numbers are; the result is a single object, with the variants of
  both.\<close>

theorem feature_toggle_rows_merged:
  "distinct (map env_pk (client_metrics_env colliding_store)) \<and>
   getMetricsForFeatureToggle dateToString numToString 0 colliding_store ''f'' 24 =
     [event ''f'' ''a_b'' ''c'' 0 1 0 (Some [(''A'', 2), (''B'', 3)])]"
  by (simp add: getMetricsForFeatureToggle_def featureToggleRows_def leftJoinVariants_def
      variantRowReducer_def reducer_key_def colliding_store_def empty_store_def env_row_def
      variant_row_def event_def env_pk_def msPerHour_def)

end
